theory Spec2Isabelle
  imports Main "HOL-Library.AList" "HOL-Library.Char_ord" "HOL-Library.List_Lexorder"
begin

text \<open>
  A shallow embedding of the command-line pipeline of the terminal emulator: the
  tokenizer and input parser of \<^verbatim>\<open>CommandProcessor\<close>, its registry and dispatcher, the
  \<^verbatim>\<open>VirtualFileSystem\<close> and the \<^verbatim>\<open>BashInterpreter\<close>. Each definition carries the name of
  the method it translates. Objects that the TypeScript mutates are values here, and a
  method that changes one returns the new value next to its result. Writing the tree to
  \<^verbatim>\<open>localStorage\<close> has no effect on what the methods return and is left out.
\<close>

section \<open>JavaScript string helpers\<close>

text \<open>
  Strings are \<^typ>\<open>string\<close> (lists of characters); a JavaScript character is a
  one-element string. The helpers below are the \<^verbatim>\<open>String.prototype\<close> methods the
  sources call, written out on lists.
\<close>

definition startsWith :: "string \<Rightarrow> string \<Rightarrow> bool" where
  "startsWith s p = (take (length p) s = p)"

definition endsWith :: "string \<Rightarrow> string \<Rightarrow> bool" where
  "endsWith s p = (length p \<le> length s \<and> drop (length s - length p) s = p)"

text \<open>\<^verbatim>\<open>s.indexOf(c)\<close> for a one-character needle: the first position, or -1.\<close>

definition indexOf :: "string \<Rightarrow> char \<Rightarrow> int" where
  "indexOf s c = (if c \<in> set s then int (length (takeWhile (\<lambda>x. x \<noteq> c) s)) else - 1)"

text \<open>\<^verbatim>\<open>s.substring(a, b)\<close> swaps its bounds when they are out of order.\<close>

definition substring :: "nat \<Rightarrow> nat \<Rightarrow> string \<Rightarrow> string" where
  "substring a b s = take (max a b - min a b) (drop (min a b) s)"

text \<open>\<^verbatim>\<open>s.includes(p)\<close>: \<open>p\<close> occurs in \<open>s\<close> as a contiguous substring.\<close>

primrec includes_str :: "string \<Rightarrow> string \<Rightarrow> bool" where
  "includes_str [] p = (p = [])"
| "includes_str (x # xs) p = (startsWith (x # xs) p \<or> includes_str xs p)"

text \<open>\<^verbatim>\<open>s.split(c)\<close> for a one-character separator; the result is never empty.\<close>

primrec split :: "char \<Rightarrow> string \<Rightarrow> string list" where
  "split c [] = [[]]"
| "split c (x # xs) =
     (if x = c then [] # split c xs
      else (case split c xs of
              [] \<Rightarrow> [[x]]
            | p # ps \<Rightarrow> (x # p) # ps))"

text \<open>\<^verbatim>\<open>parts.join(sep)\<close>.\<close>

fun join :: "string \<Rightarrow> string list \<Rightarrow> string" where
  "join sep [] = []"
| "join sep [p] = p"
| "join sep (p # q # ps) = p @ sep @ join sep (q # ps)"

text \<open>\<^verbatim>\<open>s.toLowerCase()\<close> on the ASCII letters; other characters are kept (JavaScript
  also lowers letters outside ASCII, which the properties below do not use).\<close>

definition lowerChar :: "char \<Rightarrow> char" where
  "lowerChar c =
     (case map_of (zip ''ABCDEFGHIJKLMNOPQRSTUVWXYZ'' ''abcdefghijklmnopqrstuvwxyz'') c of
        Some l \<Rightarrow> l
      | None \<Rightarrow> c)"

definition toLowerCase :: "string \<Rightarrow> string" where
  "toLowerCase s = map lowerChar s"

text \<open>\<^verbatim>\<open>s.trim()\<close>: the ASCII white space (tab, line feed, vertical tab, form feed,
  carriage return, space) is removed at both ends (JavaScript also removes the white
  space outside ASCII, which the properties below do not use).\<close>

definition isSpace :: "char \<Rightarrow> bool" where
  "isSpace c = (c \<in> set [CHR 0x09, CHR 0x0A, CHR 0x0B, CHR 0x0C, CHR 0x0D, CHR '' ''])"

definition trim :: "string \<Rightarrow> string" where
  "trim s = rev (dropWhile isSpace (rev (dropWhile isSpace s)))"

section \<open>Tokenizer (\<^verbatim>\<open>CommandProcessor.tokenize\<close>)\<close>

record tok_state =
  tokens :: "string list"
  current :: string
  inQuotes :: bool
  quoteChar :: string
  escaped :: bool

definition tok_init :: tok_state where
  "tok_init = \<lparr>tokens = [], current = [], inQuotes = False, quoteChar = [], escaped = False\<rparr>"

text \<open>One iteration of the scanning loop; each \<^verbatim>\<open>continue\<close> is a branch.\<close>

definition tok_step :: "tok_state \<Rightarrow> char \<Rightarrow> tok_state" where
  "tok_step st c =
     (if escaped st then st\<lparr>current := current st @ [c], escaped := False\<rparr>
      else if c = CHR 0x5C then st\<lparr>escaped := True\<rparr>
      else if \<not> inQuotes st \<and> (c = CHR 0x22 \<or> c = CHR 0x27)
        then st\<lparr>inQuotes := True, quoteChar := [c]\<rparr>
      else if inQuotes st \<and> [c] = quoteChar st
        then st\<lparr>inQuotes := False, quoteChar := []\<rparr>
      else if \<not> inQuotes st \<and> c = CHR '' '' then
        (if current st \<noteq> [] then st\<lparr>tokens := tokens st @ [current st], current := []\<rparr>
         else st)
      else st\<lparr>current := current st @ [c]\<rparr>)"

primrec tok_loop :: "tok_state \<Rightarrow> string \<Rightarrow> tok_state" where
  "tok_loop st [] = st"
| "tok_loop st (c # cs) = tok_loop (tok_step st c) cs"

definition tok_finish :: "tok_state \<Rightarrow> string list" where
  "tok_finish st = (if current st \<noteq> [] then tokens st @ [current st] else tokens st)"

definition tokenize :: "string \<Rightarrow> string list" where
  "tokenize input = tok_finish (tok_loop tok_init input)"

text \<open>An example state: the scanner has read \<^verbatim>\<open>"a\<close> and the quotation is open.\<close>

definition st_in_quotes :: tok_state where
  "st_in_quotes = \<lparr>tokens = [], current = ''a'', inQuotes = True, quoteChar = [CHR 0x22], escaped = False\<rparr>"

text \<open>
  The scanner state holds no copy of the quote character \<open>q\<close>, no escape is pending, and
  an open quotation was opened by \<open>q\<close>.
\<close>

definition quote_free :: "char \<Rightarrow> tok_state \<Rightarrow> bool" where
  "quote_free q st \<longleftrightarrow>
     (\<forall>t \<in> set (tokens st). q \<notin> set t) \<and> q \<notin> set (current st)
     \<and> \<not> escaped st \<and> (inQuotes st \<longrightarrow> quoteChar st = [q])"

section \<open>Input parser (\<^verbatim>\<open>CommandProcessor.parseInput\<close>, \<^verbatim>\<open>processToken\<close>)\<close>

datatype flag_value = BoolV bool | StrV string

datatype redirect_mode = Write | Append

text \<open>The variables \<^verbatim>\<open>processToken\<close> mutates: the two it receives by reference and
  the two its \<^verbatim>\<open>onRedirect\<close> callback assigns.\<close>

record parse_vars =
  args :: "string list"
  flags :: "string \<rightharpoonup> flag_value"
  redirectToFile :: "string option"
  redirectMode :: "redirect_mode option"

record parsed = parse_vars +
  command :: string

text \<open>The inner loop over the characters of a short-flag group. The list is what is
  left of \<^verbatim>\<open>flagChars\<close>, so \<^verbatim>\<open>j === flagChars.length - 1\<close> is \<open>cs = []\<close>.\<close>

primrec shortFlags :: "string list \<Rightarrow> string \<Rightarrow> nat \<Rightarrow> (string \<rightharpoonup> flag_value)
    \<Rightarrow> nat \<times> (string \<rightharpoonup> flag_value)" where
  "shortFlags toks [] i fl = (i, fl)"
| "shortFlags toks (c # cs) i fl =
     (if cs = [] \<and> i + 1 < length toks \<and> \<not> startsWith (toks ! (i + 1)) ''-''
      then shortFlags toks cs (i + 1) (fl([c] \<mapsto> StrV (toks ! (i + 1))))
      else shortFlags toks cs i (fl([c] \<mapsto> BoolV True)))"

definition processToken :: "string \<Rightarrow> string list \<Rightarrow> nat \<Rightarrow> parse_vars \<Rightarrow> nat \<times> parse_vars" where
  "processToken token toks currentIndex v =
     (let i = currentIndex in
      if token = ''>'' \<or> token = ''>>'' then
        (let mode = (if token = ''>>'' then Append else Write) in
         if i + 1 < length toks
         then (i + 1, v\<lparr>redirectToFile := Some (toks ! (i + 1)), redirectMode := Some mode\<rparr>)
         else (i, v))
      else if startsWith token ''--'' then
        (let equalIndex = indexOf token CHR ''='' in
         if equalIndex > 0 then
           (let flagName = substring 2 (nat equalIndex) token;
                flagValue = drop (nat equalIndex + 1) token
            in (i, v\<lparr>flags := (flags v)(flagName \<mapsto> StrV flagValue)\<rparr>))
         else
           (let flagName = drop 2 token in
            if i + 1 < length toks \<and> \<not> startsWith (toks ! (i + 1)) ''-''
            then (i + 1, v\<lparr>flags := (flags v)(flagName \<mapsto> StrV (toks ! (i + 1)))\<rparr>)
            else (i, v\<lparr>flags := (flags v)(flagName \<mapsto> BoolV True)\<rparr>)))
      else if startsWith token ''-'' \<and> length token > 1 then
        (let flagChars = drop 1 token;
             (i', fl) = shortFlags toks flagChars i (flags v)
         in (i', v\<lparr>flags := fl\<rparr>))
      else (i, v\<lparr>args := args v @ [token]\<rparr>))"

text \<open>The loop \<^verbatim>\<open>for (let i = 1; i < tokens.length; i++) i = processToken(...)\<close>.\<close>

function parseLoop :: "string list \<Rightarrow> nat \<Rightarrow> parse_vars \<Rightarrow> parse_vars" where
  "parseLoop toks i v =
     (if i < length toks
      then parseLoop toks (fst (processToken (toks ! i) toks i v) + 1)
             (snd (processToken (toks ! i) toks i v))
      else v)"
  by pat_completeness auto
termination
proof (relation "measure (\<lambda>(toks, i, v). length toks - i)")
  show "wf (measure (\<lambda>(toks, i, v). length toks - i))" by simp
next
  fix toks :: "string list" and i :: nat and v :: parse_vars
  assume less: "i < length toks"
  have short: "j \<le> fst (shortFlags toks cs j fl)" for cs j fl
  proof (induction cs arbitrary: j fl)
    case Nil
    show ?case by simp
  next
    case (Cons c cs)
    have "j \<le> fst (shortFlags toks cs j (fl([c] \<mapsto> BoolV True)))"
      by (rule Cons.IH)
    moreover have "j + 1 \<le> fst (shortFlags toks cs (j + 1) (fl([c] \<mapsto> StrV (toks ! (j + 1)))))"
      by (rule Cons.IH)
    ultimately show ?case by simp
  qed
  have "i \<le> fst (shortFlags toks (drop 1 (toks ! i)) i (flags v))"
    by (rule short)
  then have "i \<le> fst (processToken (toks ! i) toks i v)"
    by (simp add: processToken_def Let_def split_beta)
  with less show "((toks, fst (processToken (toks ! i) toks i v) + 1,
                    snd (processToken (toks ! i) toks i v)), (toks, i, v))
                  \<in> measure (\<lambda>(toks, i, v). length toks - i)"
    by simp
qed

declare parseLoop.simps [simp del]

definition parse_vars_init :: parse_vars where
  "parse_vars_init = \<lparr>args = [], flags = Map.empty, redirectToFile = None, redirectMode = None\<rparr>"

definition mk_parsed :: "string \<Rightarrow> parse_vars \<Rightarrow> parsed" where
  "mk_parsed cmd v = \<lparr>args = args v, flags = flags v, redirectToFile = redirectToFile v,
     redirectMode = redirectMode v, command = cmd\<rparr>"

definition parseInput :: "string \<Rightarrow> parsed" where
  "parseInput input =
     (let toks = tokenize input in
      if length toks = 0 then mk_parsed [] parse_vars_init
      else
        (let cmd = toks ! 0 in
         if startsWith cmd ''./'' \<and> length cmd > 2 then
           (let scriptName = drop 2 cmd;
                v = parseLoop toks 1 (parse_vars_init\<lparr>args := [scriptName]\<rparr>)
            in mk_parsed ''./'' v)
         else mk_parsed cmd (parseLoop toks 1 parse_vars_init)))"

section \<open>Virtual file system (\<^verbatim>\<open>VirtualFileSystem\<close>)\<close>

text \<open>
  \<^verbatim>\<open>IFileSystemNode\<close>. The optional fields \<^verbatim>\<open>content\<close> and \<^verbatim>\<open>children\<close> are options;
  \<^verbatim>\<open>children\<close> is a \<^verbatim>\<open>Map\<close>, kept as an association list in insertion order
  (\<^const>\<open>map_of\<close> is \<^verbatim>\<open>get\<close>, \<^const>\<open>AList.update\<close> is \<^verbatim>\<open>set\<close>, \<^const>\<open>AList.delete\<close> is
  \<^verbatim>\<open>delete\<close>). A \<^verbatim>\<open>Date\<close> is a natural number, and every operation that calls
  \<^verbatim>\<open>new Date()\<close> takes the value it reads as its argument \<open>now\<close>.
\<close>

datatype node_type = File | Directory

datatype node = Node
  (name: string)
  (ntype: node_type)
  (content: "string option")
  (children: "(string \<times> node) list option")
  (permissions: string)
  (created: nat)
  (modified: nat)
  (nsize: nat)

record vfs =
  root :: node
  currentPath :: string
  homeDirectory :: string

text \<open>\<^verbatim>\<open>createNode(name, type, content?)\<close>; an absent or empty \<open>content\<close> is falsy.\<close>

definition createNode :: "nat \<Rightarrow> string \<Rightarrow> node_type \<Rightarrow> string option \<Rightarrow> node" where
  "createNode now nm ty cont =
     Node nm ty
       (Some (case cont of None \<Rightarrow> [] | Some c \<Rightarrow> c))
       (if ty = Directory then Some [] else None)
       (if ty = Directory then ''rwxr-xr-x'' else ''rw-r--r--'')
       now now
       (case cont of None \<Rightarrow> 0 | Some c \<Rightarrow> length c)"

text \<open>\<^verbatim>\<open>node.children.set(k, child)\<close> and \<^verbatim>\<open>node.children.delete(k)\<close> on a node that has
  a children map, and the assignments to \<^verbatim>\<open>modified\<close>, \<^verbatim>\<open>content\<close> and \<^verbatim>\<open>size\<close>.\<close>

primrec setChild :: "string \<Rightarrow> node \<Rightarrow> node \<Rightarrow> node" where
  "setChild k child (Node nm ty ct ch pm cr md sz) =
     Node nm ty ct (case ch of None \<Rightarrow> None | Some cs \<Rightarrow> Some (AList.update k child cs))
       pm cr md sz"

primrec deleteChild :: "string \<Rightarrow> node \<Rightarrow> node" where
  "deleteChild k (Node nm ty ct ch pm cr md sz) =
     Node nm ty ct (case ch of None \<Rightarrow> None | Some cs \<Rightarrow> Some (AList.delete k cs))
       pm cr md sz"

primrec setModified :: "nat \<Rightarrow> node \<Rightarrow> node" where
  "setModified now (Node nm ty ct ch pm cr md sz) = Node nm ty ct ch pm cr now sz"

primrec setContent :: "string \<Rightarrow> node \<Rightarrow> node" where
  "setContent c (Node nm ty ct ch pm cr md sz) = Node nm ty (Some c) ch pm cr md (length c)"

definition createInitialStructure :: "nat \<Rightarrow> node" where
  "createInitialStructure now =
     (let root0 = Node [] Directory None (Some []) ''rwxr-xr-x'' now now 0;
          home = createNode now ''home'' Directory None;
          user = createNode now ''user'' Directory None;
          documents = createNode now ''Documents'' Directory None;
          downloads = createNode now ''Downloads'' Directory None;
          pictures = createNode now ''Pictures'' Directory None;
          videos = createNode now ''Videos'' Directory None;
          readme = createNode now ''readme.txt'' File
            (Some (''Welcome to H-Terminal!'' @ [CHR 0x0A] @ ''This is a virtual file system.''));
          script = createNode now ''script.sh'' File
            (Some (''#!/bin/bash'' @ [CHR 0x0A] @ ''echo '' @ [CHR 0x22] @ ''Hello World!''
                   @ [CHR 0x22]));
          user1 = setChild ''Documents'' documents user;
          user2 = setChild ''Downloads'' downloads user1;
          user3 = setChild ''Pictures'' pictures user2;
          user4 = setChild ''Videos'' videos user3;
          user5 = setChild ''readme.txt'' readme user4;
          user6 = setChild ''script.sh'' script user5;
          home1 = setChild ''user'' user6 home
      in setChild ''home'' home1 root0)"

text \<open>The constructor; \<^verbatim>\<open>loadFromStorage\<close> finds nothing stored and keeps the seeded tree.\<close>

definition newVirtualFileSystem :: "nat \<Rightarrow> string \<Rightarrow> vfs" where
  "newVirtualFileSystem now home =
     \<lparr>root = createInitialStructure now, currentPath = ''~'', homeDirectory = home\<rparr>"

definition getCurrentDirectory :: "vfs \<Rightarrow> string" where
  "getCurrentDirectory fs = currentPath fs"

definition getAbsolutePath :: "vfs \<Rightarrow> string \<Rightarrow> string" where
  "getAbsolutePath fs path =
     (if path = ''~'' then homeDirectory fs
      else if startsWith path ''~/'' then homeDirectory fs @ drop 1 path
      else if startsWith path ''/'' then path
      else homeDirectory fs @ ''/'' @ path)"

text \<open>\<^verbatim>\<open>absolutePath.split('/').filter(p => p)\<close>.\<close>

definition pathParts :: "string \<Rightarrow> string list" where
  "pathParts p = filter (\<lambda>x. x \<noteq> []) (split CHR ''/'' p)"

text \<open>The loop of \<^verbatim>\<open>resolvePath\<close> over the parts of a path that starts with \<^verbatim>\<open>../\<close>;
  \<^verbatim>\<open>pop\<close> on an empty array does nothing.\<close>

primrec resolveParts :: "string list \<Rightarrow> string list \<Rightarrow> string list" where
  "resolveParts parts [] = parts"
| "resolveParts parts (p # ps) =
     (if p = ''..'' then resolveParts (butlast parts) ps
      else if p \<noteq> ''.'' then resolveParts (parts @ [p]) ps
      else resolveParts parts ps)"

definition resolvePath :: "vfs \<Rightarrow> string \<Rightarrow> string" where
  "resolvePath fs path =
     (if path = ''~'' then homeDirectory fs
      else if startsWith path ''~/'' then homeDirectory fs @ drop 1 path
      else if startsWith path ''/'' then path
      else
        (let currentAbsolute = getAbsolutePath fs (currentPath fs) in
         if path = ''.'' then currentAbsolute
         else if path = ''..'' then ''/'' @ join ''/'' (butlast (pathParts currentAbsolute))
         else if startsWith path ''../'' then
           ''/'' @ join ''/'' (resolveParts (pathParts currentAbsolute) (split CHR ''/'' path))
         else currentAbsolute @ (if endsWith currentAbsolute ''/'' then [] else ''/'') @ path))"

text \<open>The loop of \<^verbatim>\<open>getNodeByPath\<close>.\<close>

fun walk :: "node \<Rightarrow> string list \<Rightarrow> node option" where
  "walk cur [] = Some cur"
| "walk cur (part # parts) =
     (case children cur of
        None \<Rightarrow> None
      | Some cs \<Rightarrow>
          (case map_of cs part of
             None \<Rightarrow> None
           | Some child \<Rightarrow> walk child parts))"

definition getNodeByPath :: "vfs \<Rightarrow> string \<Rightarrow> node option" where
  "getNodeByPath fs absolutePath =
     (if absolutePath = ''/'' then Some (root fs)
      else walk (root fs) (pathParts absolutePath))"

definition getCurrentDirectoryNode :: "vfs \<Rightarrow> node option" where
  "getCurrentDirectoryNode fs = getNodeByPath fs (getAbsolutePath fs (currentPath fs))"

definition normalizeDisplayPath :: "vfs \<Rightarrow> string \<Rightarrow> string" where
  "normalizeDisplayPath fs absolutePath =
     (if absolutePath = homeDirectory fs then ''~''
      else if startsWith absolutePath (homeDirectory fs @ ''/'')
        then ''~'' @ drop (length (homeDirectory fs)) absolutePath
      else absolutePath)"

definition getNode :: "vfs \<Rightarrow> string \<Rightarrow> node option" where
  "getNode fs path =
     (if includes_str path ''/'' then getNodeByPath fs (resolvePath fs path)
      else
        (case getCurrentDirectoryNode fs of
           None \<Rightarrow> None
         | Some currentNode \<Rightarrow>
             (case children currentNode of
                None \<Rightarrow> None
              | Some cs \<Rightarrow> map_of cs path)))"

definition exists :: "vfs \<Rightarrow> string \<Rightarrow> bool" where
  "exists fs path = (getNode fs path \<noteq> None)"

text \<open>
  The operations mutate the node objects that \<^verbatim>\<open>getNodeByPath\<close> returns. The tree owns
  each node once, so the object reached by a list of keys is replaced where it sits:
  \<open>modify parts f\<close> rebuilds the tree with \<open>f\<close> applied to the node \<open>walk\<close> reaches.
\<close>

fun modify :: "string list \<Rightarrow> (node \<Rightarrow> node) \<Rightarrow> node \<Rightarrow> node" where
  "modify [] f cur = f cur"
| "modify (part # parts) f cur =
     (case children cur of
        None \<Rightarrow> cur
      | Some cs \<Rightarrow>
          (case map_of cs part of
             None \<Rightarrow> cur
           | Some child \<Rightarrow> setChild part (modify parts f child) cur))"

definition currentParts :: "vfs \<Rightarrow> string list" where
  "currentParts fs = pathParts (getAbsolutePath fs (currentPath fs))"

text \<open>The keys that lead to the node \<^verbatim>\<open>getNode(path)\<close> returns.\<close>

definition nodeParts :: "vfs \<Rightarrow> string \<Rightarrow> string list" where
  "nodeParts fs path =
     (if includes_str path ''/'' then pathParts (resolvePath fs path)
      else currentParts fs @ [path])"

definition setCurrentDirectory :: "vfs \<Rightarrow> string \<Rightarrow> bool \<times> vfs" where
  "setCurrentDirectory fs path =
     (let resolvedPath = resolvePath fs path in
      case getNodeByPath fs resolvedPath of
        None \<Rightarrow> (False, fs)
      | Some nd \<Rightarrow>
          if ntype nd \<noteq> Directory then (False, fs)
          else (True, fs\<lparr>currentPath := normalizeDisplayPath fs resolvedPath\<rparr>))"

definition createFile :: "vfs \<Rightarrow> nat \<Rightarrow> string \<Rightarrow> string \<Rightarrow> bool \<times> vfs" where
  "createFile fs now nm cont =
     (if exists fs nm then (False, fs)
      else
        (case getCurrentDirectoryNode fs of
           None \<Rightarrow> (False, fs)
         | Some currentNode \<Rightarrow>
             (case children currentNode of
                None \<Rightarrow> (False, fs)
              | Some cs \<Rightarrow>
                  (let file = createNode now nm File (Some cont) in
                   (True, fs\<lparr>root := modify (currentParts fs)
                                 (\<lambda>n. setModified now (setChild nm file n)) (root fs)\<rparr>)))))"

definition createDirectory :: "vfs \<Rightarrow> nat \<Rightarrow> string \<Rightarrow> bool \<times> vfs" where
  "createDirectory fs now nm =
     (if exists fs nm then (False, fs)
      else
        (case getCurrentDirectoryNode fs of
           None \<Rightarrow> (False, fs)
         | Some currentNode \<Rightarrow>
             (case children currentNode of
                None \<Rightarrow> (False, fs)
              | Some cs \<Rightarrow>
                  (let directory = createNode now nm Directory None in
                   (True, fs\<lparr>root := modify (currentParts fs)
                                 (\<lambda>n. setModified now (setChild nm directory n)) (root fs)\<rparr>)))))"

definition deleteNode :: "vfs \<Rightarrow> nat \<Rightarrow> string \<Rightarrow> bool \<Rightarrow> bool \<times> vfs" where
  "deleteNode fs now nm recursive =
     (case getCurrentDirectoryNode fs of
        None \<Rightarrow> (False, fs)
      | Some currentNode \<Rightarrow>
          (case children currentNode of
             None \<Rightarrow> (False, fs)
           | Some cs \<Rightarrow>
               (case map_of cs nm of
                  None \<Rightarrow> (False, fs)
                | Some nd \<Rightarrow>
                    if ntype nd = Directory
                       \<and> (case children nd of None \<Rightarrow> False | Some ds \<Rightarrow> length ds > 0)
                       \<and> \<not> recursive
                    then (False, fs)
                    else (True, fs\<lparr>root := modify (currentParts fs)
                                   (\<lambda>n. setModified now (deleteChild nm n)) (root fs)\<rparr>))))"

definition readFile :: "vfs \<Rightarrow> string \<Rightarrow> string option" where
  "readFile fs nm =
     (case getNode fs nm of
        None \<Rightarrow> None
      | Some nd \<Rightarrow>
          if ntype nd \<noteq> File then None
          else Some (case content nd of None \<Rightarrow> [] | Some c \<Rightarrow> c))"

definition writeFile :: "vfs \<Rightarrow> nat \<Rightarrow> string \<Rightarrow> string \<Rightarrow> bool \<times> vfs" where
  "writeFile fs now nm cont =
     (case getNode fs nm of
        Some nd \<Rightarrow>
          if ntype nd = File
          then (True, fs\<lparr>root := modify (nodeParts fs nm)
                         (\<lambda>n. setModified now (setContent cont n)) (root fs)\<rparr>)
          else createFile fs now nm cont
      | None \<Rightarrow> createFile fs now nm cont)"

text \<open>
  \<^verbatim>\<open>Array.prototype.sort(compare)\<close> is a stable sort; \<open>compare a b \<le> 0\<close> keeps \<open>a\<close> before
  \<open>b\<close>. It is written out as a stable insertion sort.
\<close>

primrec insertBy :: "('a \<Rightarrow> 'a \<Rightarrow> int) \<Rightarrow> 'a \<Rightarrow> 'a list \<Rightarrow> 'a list" where
  "insertBy cmp x [] = [x]"
| "insertBy cmp x (y # ys) = (if cmp x y \<le> 0 then x # y # ys else y # insertBy cmp x ys)"

primrec sortBy :: "('a \<Rightarrow> 'a \<Rightarrow> int) \<Rightarrow> 'a list \<Rightarrow> 'a list" where
  "sortBy cmp [] = []"
| "sortBy cmp (x # xs) = insertBy cmp x (sortBy cmp xs)"

text \<open>
  The comparison function of \<^verbatim>\<open>listDirectory\<close>. \<^verbatim>\<open>String.prototype.localeCompare\<close>
  belongs to the host, which chooses the collation; it is the parameter \<open>localeCompare\<close>.
\<close>

definition compareNodes :: "(string \<Rightarrow> string \<Rightarrow> int) \<Rightarrow> node \<Rightarrow> node \<Rightarrow> int" where
  "compareNodes localeCompare a b =
     (if ntype a \<noteq> ntype b then (if ntype a = Directory then - 1 else 1)
      else localeCompare (name a) (name b))"

text \<open>The \<^verbatim>\<open>targetPath\<close> of \<^verbatim>\<open>listDirectory\<close>; the optional \<open>path\<close> is falsy when it is
  absent or empty.\<close>

definition targetPath :: "vfs \<Rightarrow> string option \<Rightarrow> string" where
  "targetPath fs path =
     (case path of
        None \<Rightarrow> getAbsolutePath fs (currentPath fs)
      | Some p \<Rightarrow> if p \<noteq> [] then resolvePath fs p else getAbsolutePath fs (currentPath fs))"

definition listDirectory :: "(string \<Rightarrow> string \<Rightarrow> int) \<Rightarrow> vfs \<Rightarrow> string option \<Rightarrow> node list" where
  "listDirectory localeCompare fs path =
     (case getNodeByPath fs (targetPath fs path) of
        None \<Rightarrow> []
      | Some nd \<Rightarrow>
          if ntype nd \<noteq> Directory then []
          else (case children nd of
                  None \<Rightarrow> []
                | Some cs \<Rightarrow> sortBy (compareNodes localeCompare) (map snd cs)))"

text \<open>
  The collation of the host's default locale, written out for names made of ASCII
  letters, digits and full stops (other characters are compared by code, which need not
  be what a host does): the names are compared without regard to case first, and on a
  tie the first difference in case decides, lower case before upper case. So \<^verbatim>\<open>beta\<close>
  precedes \<^verbatim>\<open>Documents\<close>, and \<^verbatim>\<open>a\<close> precedes \<^verbatim>\<open>A\<close>.
\<close>

definition isUpper :: "char \<Rightarrow> bool" where
  "isUpper c = (c \<in> set ''ABCDEFGHIJKLMNOPQRSTUVWXYZ'')"

definition defaultCollation :: "string \<Rightarrow> string \<Rightarrow> int" where
  "defaultCollation a b =
     (if toLowerCase a < toLowerCase b then - 1
      else if toLowerCase b < toLowerCase a then 1
      else if map isUpper a < map isUpper b then - 1
      else if map isUpper b < map isUpper a then 1
      else 0)"

text \<open>
  The invariant of the data model: the keys of a directory's children map are
  distinct, each key is the name of its child, and the same holds below.
\<close>

fun wf_node :: "node \<Rightarrow> bool" where
  "wf_node (Node nm ty ct ch pm cr md sz) =
     (case ch of
        None \<Rightarrow> True
      | Some cs \<Rightarrow> distinct (map fst cs) \<and> (\<forall>(k, c) \<in> set cs. k = name c \<and> wf_node c))"

subsection \<open>Sequences of operations\<close>

text \<open>
  The operations of the interface that change the file system, each with its arguments.
  The others (\<^verbatim>\<open>getCurrentDirectory\<close>, \<^verbatim>\<open>listDirectory\<close>, \<^verbatim>\<open>readFile\<close>, \<^verbatim>\<open>exists\<close>,
  \<^verbatim>\<open>getNode\<close>, \<^verbatim>\<open>resolvePath\<close>, \<^verbatim>\<open>getAbsolutePath\<close>) leave it as it is.
\<close>

datatype vfs_op =
    SetCurrentDirectory string
  | CreateFile nat string string
  | CreateDirectory nat string
  | DeleteNode nat string bool
  | WriteFile nat string string

fun apply_op :: "vfs \<Rightarrow> vfs_op \<Rightarrow> vfs" where
  "apply_op fs (SetCurrentDirectory path) = snd (setCurrentDirectory fs path)"
| "apply_op fs (CreateFile now nm cont) = snd (createFile fs now nm cont)"
| "apply_op fs (CreateDirectory now nm) = snd (createDirectory fs now nm)"
| "apply_op fs (DeleteNode now nm recursive) = snd (deleteNode fs now nm recursive)"
| "apply_op fs (WriteFile now nm cont) = snd (writeFile fs now nm cont)"

text \<open>The home directory is an absolute path and the current path resolves to a
  directory.\<close>

definition cwd_ok :: "vfs \<Rightarrow> bool" where
  "cwd_ok fs \<longleftrightarrow> startsWith (homeDirectory fs) ''/''
     \<and> (\<exists>n. getCurrentDirectoryNode fs = Some n \<and> ntype n = Directory)"

subsection \<open>Example states\<close>

text \<open>The file system as \<^verbatim>\<open>main.ts\<close> constructs it, and the same after \<^verbatim>\<open>cd /home\<close>.\<close>

definition fs0 :: vfs where
  "fs0 = newVirtualFileSystem 0 ''/home/user''"

definition fs_at_home :: vfs where
  "fs_at_home = snd (setCurrentDirectory fs0 ''/home'')"

text \<open>The seeded tree with two more files and one more directory in the home
  directory.\<close>

definition fs_listing :: vfs where
  "fs_listing = foldl apply_op fs0
     [CreateFile 1 ''Zeta'' ''z'', CreateFile 2 ''alpha'' ''a'', CreateDirectory 3 ''beta'']"

section \<open>Command registry and dispatcher (\<^verbatim>\<open>CommandProcessor\<close>)\<close>

text \<open>
  What a handler can reach through its context and change: the file system, the
  environment map and the lines the terminal shows (text and class name).
\<close>

record world =
  fileSystem :: vfs
  environment :: "string \<rightharpoonup> string"
  terminal :: "(string \<times> string) list"

record command_context = world +
  workingDirectory :: string
  ctx_args :: "string list"
  ctx_flags :: "string \<rightharpoonup> flag_value"

record result =
  success :: bool
  output_lines :: "string list option"
  error :: "string option"
  exitCode :: int

text \<open>
  A handler returns a result or throws; either way it leaves a world behind. A thrown
  \<^verbatim>\<open>Error\<close> carries its message, any other thrown value carries none.
\<close>

datatype outcome = Returns result world | Throws "string option" world

record command =
  cmd_name :: string
  cmd_description :: string
  cmd_usage :: string
  cmd_aliases :: "string list option"
  cmd_execute :: "command_context \<Rightarrow> outcome"

record processor =
  commands :: "string \<rightharpoonup> command"
  aliases :: "string \<rightharpoonup> string"

definition newCommandProcessor :: processor where
  "newCommandProcessor = \<lparr>commands = Map.empty, aliases = Map.empty\<rparr>"

definition registerCommand :: "processor \<Rightarrow> command \<Rightarrow> processor" where
  "registerCommand p c =
     \<lparr>commands = (commands p)(toLowerCase (cmd_name c) \<mapsto> c),
      aliases =
        (case cmd_aliases c of
           None \<Rightarrow> aliases p
         | Some al \<Rightarrow>
             foldl (\<lambda>m a. m(toLowerCase a \<mapsto> toLowerCase (cmd_name c))) (aliases p) al)\<rparr>"

definition unregisterCommand :: "processor \<Rightarrow> string \<Rightarrow> processor" where
  "unregisterCommand p nm =
     (case commands p (toLowerCase nm) of
        None \<Rightarrow> p
      | Some c \<Rightarrow>
          \<lparr>commands = (commands p)(toLowerCase nm := None),
           aliases =
             (case cmd_aliases c of
                None \<Rightarrow> aliases p
              | Some al \<Rightarrow> foldl (\<lambda>m a. m(toLowerCase a := None)) (aliases p) al)\<rparr>)"

text \<open>\<^verbatim>\<open>this.aliases.get(name.toLowerCase()) || name.toLowerCase()\<close>: an alias entry
  that holds the empty string is falsy.\<close>

definition actualName :: "processor \<Rightarrow> string \<Rightarrow> string" where
  "actualName p nm =
     (case aliases p (toLowerCase nm) of
        None \<Rightarrow> toLowerCase nm
      | Some a \<Rightarrow> if a \<noteq> [] then a else toLowerCase nm)"

definition getCommand :: "processor \<Rightarrow> string \<Rightarrow> command option" where
  "getCommand p nm = commands p (actualName p nm)"

definition writeToFile :: "vfs \<Rightarrow> nat \<Rightarrow> string \<Rightarrow> string \<Rightarrow> bool \<times> vfs" where
  "writeToFile fs now filename cont = writeFile fs now filename cont"

definition appendToFile :: "vfs \<Rightarrow> nat \<Rightarrow> string \<Rightarrow> string \<Rightarrow> bool \<times> vfs" where
  "appendToFile fs now filename cont =
     (let existingContent = (case readFile fs filename of None \<Rightarrow> [] | Some c \<Rightarrow> c);
          newContent = existingContent @ (if existingContent \<noteq> [] then [CHR 0x0A] else []) @ cont
      in writeFile fs now filename newContent)"

definition executeCommand :: "processor \<Rightarrow> nat \<Rightarrow> string \<Rightarrow> world \<Rightarrow> string \<Rightarrow> result \<times> world" where
  "executeCommand p now input w wd =
     (if trim input = []
      then (\<lparr>success = True, output_lines = None, error = None, exitCode = 0\<rparr>, w)
      else
        (let pr = parseInput input;
             commandName = command pr
         in case commands p (actualName p commandName) of
              None \<Rightarrow>
                (\<lparr>success = False, output_lines = None,
                  error = Some (''bash: '' @ commandName @ '': command not found''),
                  exitCode = 127\<rparr>, w)
            | Some targetCommand \<Rightarrow>
                (let fullContext =
                       \<lparr>fileSystem = fileSystem w, environment = environment w,
                        terminal = terminal w, workingDirectory = wd,
                        ctx_args = args pr, ctx_flags = flags pr\<rparr>
                 in case cmd_execute targetCommand fullContext of
                      Throws e w' \<Rightarrow>
                        (\<lparr>success = False, output_lines = None,
                          error = Some (case e of Some m \<Rightarrow> m
                                        | None \<Rightarrow> ''Unknown error occurred''),
                          exitCode = 1\<rparr>, w')
                    | Returns res w' \<Rightarrow>
                        (case (redirectToFile pr, output_lines res) of
                           (Some file, Some out) \<Rightarrow>
                             if file \<noteq> [] \<and> success res then
                               (let cont = join [CHR 0x0A] out;
                                    (writeSuccess, fs') =
                                      (if redirectMode pr = Some Append
                                       then appendToFile (fileSystem w') now file cont
                                       else writeToFile (fileSystem w') now file cont)
                                in if writeSuccess
                                   then (\<lparr>success = True, output_lines = None, error = None,
                                          exitCode = 0\<rparr>, w'\<lparr>fileSystem := fs'\<rparr>)
                                   else (\<lparr>success = False, output_lines = None,
                                          error = Some (''bash: '' @ file
                                                        @ '': cannot redirect output''),
                                          exitCode = 1\<rparr>, w'\<lparr>fileSystem := fs'\<rparr>))
                             else (res, w')
                         | _ \<Rightarrow> (res, w')))))"

subsection \<open>\<^verbatim>\<open>BaseCommand\<close> and \<^verbatim>\<open>EchoCommand\<close>\<close>

definition successResult :: "string list option \<Rightarrow> result" where
  "successResult out =
     \<lparr>success = True, output_lines = Some (case out of None \<Rightarrow> [] | Some l \<Rightarrow> l), error = None,
      exitCode = 0\<rparr>"

text \<open>\<^verbatim>\<open>hasFlag\<close>: the flag is present and its value is the boolean \<^verbatim>\<open>true\<close>.\<close>

definition hasFlag :: "(string \<rightharpoonup> flag_value) \<Rightarrow> string \<Rightarrow> bool" where
  "hasFlag fl flag = (fl flag = Some (BoolV True))"

definition EchoCommand :: command where
  "EchoCommand =
     \<lparr>cmd_name = ''echo'', cmd_description = ''Display a line of text'',
      cmd_usage = ''echo [text...]'', cmd_aliases = None,
      cmd_execute = (\<lambda>ctx. Returns (successResult (Some [join '' '' (ctx_args ctx)]))
                                  (world.truncate ctx))\<rparr>"

subsection \<open>Example commands\<close>

text \<open>A command that returns an empty successful result, with a given name and aliases
  (\<^verbatim>\<open>LsCommand\<close> has the name \<^verbatim>\<open>ls\<close> and the alias \<^verbatim>\<open>dir\<close>), and the aliases of a command
  as a list.\<close>

definition noopCommand :: "string \<Rightarrow> string list option \<Rightarrow> command" where
  "noopCommand nm al =
     \<lparr>cmd_name = nm, cmd_description = [], cmd_usage = [], cmd_aliases = al,
      cmd_execute = (\<lambda>ctx. Returns (successResult None) (world.truncate ctx))\<rparr>"

definition aliasList :: "command \<Rightarrow> string list" where
  "aliasList c = (case cmd_aliases c of None \<Rightarrow> [] | Some al \<Rightarrow> al)"

text \<open>
  The command registered last under a primary name, and the command registered last
  with an alias, in a sequence of registrations (keys are lowercased).
\<close>

definition lastNamed :: "command list \<Rightarrow> string \<Rightarrow> command option" where
  "lastNamed cs k = find (\<lambda>d. toLowerCase (cmd_name d) = k) (rev cs)"

definition lastAliased :: "command list \<Rightarrow> string \<Rightarrow> command option" where
  "lastAliased cs k = find (\<lambda>d. k \<in> set (map toLowerCase (aliasList d))) (rev cs)"

text \<open>A registry after four registrations.\<close>

definition exampleRegistry :: processor where
  "exampleRegistry = foldl registerCommand newCommandProcessor
     [noopCommand ''dir'' None, noopCommand ''ls'' (Some [''dir'']), EchoCommand,
      noopCommand ''help'' (Some [''?''])]"

section \<open>Script interpreter (\<^verbatim>\<open>BashInterpreter\<close>)\<close>

definition addOutput :: "string \<Rightarrow> string \<Rightarrow> world \<Rightarrow> world" where
  "addOutput text className w = w\<lparr>terminal := terminal w @ [(text, className)]\<rparr>"

text \<open>\<^verbatim>\<open>parseCommand\<close>: quotes delimit spans, there is no escape character.\<close>

record cmd_state =
  parts :: "string list"
  cur :: string
  inQ :: bool
  qChar :: string

definition parseCommand_step :: "cmd_state \<Rightarrow> char \<Rightarrow> cmd_state" where
  "parseCommand_step st c =
     (if (c = CHR 0x22 \<or> c = CHR 0x27) \<and> \<not> inQ st then st\<lparr>inQ := True, qChar := [c]\<rparr>
      else if [c] = qChar st \<and> inQ st then st\<lparr>inQ := False, qChar := []\<rparr>
      else if c = CHR '' '' \<and> \<not> inQ st then
        (if cur st \<noteq> [] then st\<lparr>parts := parts st @ [cur st], cur := []\<rparr> else st)
      else st\<lparr>cur := cur st @ [c]\<rparr>)"

definition parseCommand :: "string \<Rightarrow> string list" where
  "parseCommand line =
     (let st = foldl parseCommand_step \<lparr>parts = [], cur = [], inQ = False, qChar = []\<rparr> line
      in if cur st \<noteq> [] then parts st @ [cur st] else parts st)"

text \<open>The regular expression class \<^verbatim>\<open>\w\<close>.\<close>

definition isWord :: "char \<Rightarrow> bool" where
  "isWord c =
     (c \<in> set ''abcdefghijklmnopqrstuvwxyzABCDEFGHIJKLMNOPQRSTUVWXYZ0123456789_'')"

text \<open>\<^verbatim>\<open>text.replace(/\$(\w+)/g, ...)\<close>: each dollar sign followed by a longest non-empty
  run of word characters is replaced by the variable's value, or by nothing.\<close>

function substituteVars :: "(string \<rightharpoonup> string) \<Rightarrow> string \<Rightarrow> string" where
  "substituteVars env [] = []"
| "substituteVars env (c # cs) =
     (if c = CHR ''$'' \<and> takeWhile isWord cs \<noteq> []
      then (case env (takeWhile isWord cs) of None \<Rightarrow> [] | Some v \<Rightarrow> v)
           @ substituteVars env (dropWhile isWord cs)
      else c # substituteVars env cs)"
  by pat_completeness auto
termination
  by (relation "measure (\<lambda>(env, s). length s)") (auto simp: length_dropWhile_le less_Suc_eq_le)

definition executeEcho :: "string list \<Rightarrow> world \<Rightarrow> bool \<times> world" where
  "executeEcho as w =
     (True, addOutput (substituteVars (environment w) (join '' '' as)) ''output-line'' w)"

text \<open>\<^verbatim>\<open>arg.split('=', 2)\<close> keeps the first two pieces; \<^verbatim>\<open>key && value\<close> needs both
  present and non-empty.\<close>

primrec executeExport_loop :: "string list \<Rightarrow> (string \<rightharpoonup> string) \<Rightarrow> (string \<rightharpoonup> string)" where
  "executeExport_loop [] env = env"
| "executeExport_loop (arg # as) env =
     (case take 2 (split CHR ''='' arg) of
        [key, val] \<Rightarrow>
          if key \<noteq> [] \<and> val \<noteq> [] then executeExport_loop as (env(key \<mapsto> val))
          else executeExport_loop as env
      | _ \<Rightarrow> executeExport_loop as env)"

definition executeExport :: "string list \<Rightarrow> world \<Rightarrow> bool \<times> world" where
  "executeExport as w = (True, w\<lparr>environment := executeExport_loop as (environment w)\<rparr>)"

definition executeCd :: "string list \<Rightarrow> world \<Rightarrow> bool \<times> world" where
  "executeCd as w =
     (let path = (case as of [] \<Rightarrow> ''~'' | a # _ \<Rightarrow> if a \<noteq> [] then a else ''~'');
          (ok, fs') = setCurrentDirectory (fileSystem w) path
      in (ok, w\<lparr>fileSystem := fs'\<rparr>))"

text \<open>\<^verbatim>\<open>Number.prototype.toString()\<close> on a natural number, and \<^verbatim>\<open>padStart(n)\<close>.\<close>

fun showNat :: "nat \<Rightarrow> string" where
  "showNat n =
     (if n < 10 then [''0123456789'' ! n]
      else showNat (n div 10) @ [''0123456789'' ! (n mod 10)])"

declare showNat.simps [simp del]

definition padStart :: "nat \<Rightarrow> string \<Rightarrow> string" where
  "padStart n s = replicate (n - length s) CHR '' '' @ s"

definition lsLine :: "node \<Rightarrow> string" where
  "lsLine file =
     (let prefix = (if ntype file = Directory then ''d'' else ''-'');
          perms = (if permissions file \<noteq> [] then permissions file else ''rw-r--r--'');
          sz = padStart 8 (showNat (nsize file));
          nm = (if ntype file = Directory
                then [CHR 0x1B] @ ''[34m'' @ name file @ [CHR 0x1B] @ ''[0m''
                else name file)
      in prefix @ perms @ '' '' @ sz @ '' '' @ nm)"

definition executeLs :: "(string \<Rightarrow> string \<Rightarrow> int) \<Rightarrow> string list \<Rightarrow> world \<Rightarrow> bool \<times> world" where
  "executeLs localeCompare as w =
     (True, foldl (\<lambda>w' file. addOutput (lsLine file) ''output-line'' w') w
              (listDirectory localeCompare (fileSystem w) None))"

definition executeScriptLine :: "(string \<Rightarrow> string \<Rightarrow> int) \<Rightarrow> string \<Rightarrow> world \<Rightarrow> bool \<times> world" where
  "executeScriptLine localeCompare line w =
     (case parseCommand line of
        [] \<Rightarrow> (True, w)
      | cmd # as \<Rightarrow>
          if cmd = ''echo'' then executeEcho as w
          else if cmd = ''export'' then executeExport as w
          else if cmd = ''cd'' then executeCd as w
          else if cmd = ''ls'' then executeLs localeCompare as w
          else (False, addOutput (''bash: '' @ cmd @ '': command not found'') ''error-line'' w))"

text \<open>The loop of \<^verbatim>\<open>executeScript\<close> over the lines; it returns at the first line that fails.\<close>

primrec executeLines :: "(string \<Rightarrow> string \<Rightarrow> int) \<Rightarrow> string list \<Rightarrow> world \<Rightarrow> bool \<times> world" where
  "executeLines localeCompare [] w = (True, w)"
| "executeLines localeCompare (l # ls) w =
     (let line = trim l in
      if line = [] \<or> startsWith line ''#'' then executeLines localeCompare ls w
      else
        (case executeScriptLine localeCompare line w of
           (False, w') \<Rightarrow> (False, w')
         | (True, w') \<Rightarrow> executeLines localeCompare ls w'))"

text \<open>\<^verbatim>\<open>!content\<close> holds for \<^verbatim>\<open>null\<close> and for the empty string.\<close>

definition executeScript :: "(string \<Rightarrow> string \<Rightarrow> int) \<Rightarrow> string \<Rightarrow> world \<Rightarrow> bool \<times> world" where
  "executeScript localeCompare scriptPath w =
     (let cont = readFile (fileSystem w) scriptPath in
      if cont = None \<or> cont = Some [] then
        (False, addOutput (''bash: '' @ scriptPath @ '': No such file or directory'')
                  ''error-line'' w)
      else
        (let lines = filter (\<lambda>line. trim line \<noteq> []) (split CHR 0x0A (the cont)) in
         if length lines = 0 then (True, w)
         else if startsWith (lines ! 0) ''#!''
                 \<and> \<not> includes_str (trim (drop 2 (lines ! 0))) ''bash''
                 \<and> \<not> includes_str (trim (drop 2 (lines ! 0))) ''sh''
           then (False, addOutput (''bash: '' @ scriptPath @ '': cannot execute binary file'')
                          ''error-line'' w)
         else executeLines localeCompare lines w))"

subsection \<open>Example worlds\<close>

text \<open>The seeded file system with an empty file \<^verbatim>\<open>empty.sh\<close> in the home directory, and
  the seeded file system with one environment variable.\<close>

definition w_empty_script :: world where
  "w_empty_script =
     \<lparr>fileSystem = snd (createFile fs0 1 ''empty.sh'' []), environment = Map.empty, terminal = []\<rparr>"

definition w_seeded :: world where
  "w_seeded = \<lparr>fileSystem = fs0, environment = [''USER'' \<mapsto> ''user''], terminal = []\<rparr>"

section \<open>Properties of the tokenizer\<close>

lemmas tok_eval = tokenize_def tok_finish_def tok_init_def tok_step_def

lemma tok_step_no_empty: "[] \<notin> set (tokens st) \<Longrightarrow> [] \<notin> set (tokens (tok_step st c))"
  by (simp add: tok_step_def)

lemma tok_loop_no_empty: "[] \<notin> set (tokens st) \<Longrightarrow> [] \<notin> set (tokens (tok_loop st input))"
  by (induction input arbitrary: st) (simp_all add: tok_step_no_empty)

lemma tokenize_no_empty: "[] \<notin> set (tokenize input)"
proof -
  have "[] \<notin> set (tokens (tok_loop tok_init input))"
    by (rule tok_loop_no_empty) (simp add: tok_init_def)
  then show ?thesis by (simp add: tokenize_def tok_finish_def)
qed

lemma tok_step_quote_free:
  assumes "quote_free q st" and "q = CHR 0x22 \<or> q = CHR 0x27"
    and "c \<noteq> CHR 0x5C" and "c = CHR 0x22 \<or> c = CHR 0x27 \<Longrightarrow> c = q"
  shows "quote_free q (tok_step st c)"
proof -
  have e: "\<not> escaped st" and cu: "q \<notin> set (current st)"
    and tk: "\<forall>t \<in> set (tokens st). q \<notin> set t"
    and iq: "inQuotes st \<Longrightarrow> quoteChar st = [q]"
    using assms(1) by (simp_all add: quote_free_def)
  show ?thesis
  proof (cases "c = CHR 0x22 \<or> c = CHR 0x27")
    case True
    then have cq: "c = q" by (rule assms(4))
    show ?thesis
    proof (cases "inQuotes st")
      case True
      then show ?thesis using e cu tk iq cq assms(3)
        by (simp add: quote_free_def tok_step_def)
    next
      case False
      then show ?thesis using e cu tk cq assms(2,3)
        by (simp add: quote_free_def tok_step_def)
    qed
  next
    case False
    then have "c \<noteq> q" using assms(2) by auto
    then show ?thesis using e cu tk iq False assms(3)
      by (simp add: quote_free_def tok_step_def)
  qed
qed

lemma tok_loop_quote_free:
  assumes "quote_free q st" and "q = CHR 0x22 \<or> q = CHR 0x27"
    and "CHR 0x5C \<notin> set input"
    and "\<forall>c \<in> set input. c = CHR 0x22 \<or> c = CHR 0x27 \<longrightarrow> c = q"
  shows "quote_free q (tok_loop st input)"
  using assms
proof (induction input arbitrary: st)
  case Nil
  then show ?case by simp
next
  case (Cons c cs)
  have "quote_free q (tok_step st c)"
    using Cons.prems by (intro tok_step_quote_free) auto
  then show ?case using Cons by simp
qed

lemma tokenize_quote_free:
  assumes "q = CHR 0x22 \<or> q = CHR 0x27"
    and "CHR 0x5C \<notin> set input"
    and "\<forall>c \<in> set input. c = CHR 0x22 \<or> c = CHR 0x27 \<longrightarrow> c = q"
    and "t \<in> set (tokenize input)"
  shows "q \<notin> set t"
proof -
  have "quote_free q tok_init" by (simp add: quote_free_def tok_init_def)
  then have "quote_free q (tok_loop tok_init input)"
    using assms(1-3) by (rule tok_loop_quote_free)
  then show ?thesis using assms(4)
    by (auto simp: quote_free_def tokenize_def tok_finish_def split: if_splits)
qed

lemma tokenize_echo_quoted:
  "tokenize (''echo '' @ [CHR 0x22] @ ''a b'' @ [CHR 0x22] @ '' c'') = [''echo'', ''a b'', ''c'']"
  by (simp add: tok_eval)

lemma tokenize_echo_escaped:
  "tokenize (''echo a'' @ [CHR 0x5C] @ '' b'') = [''echo'', ''a b'']"
  by (simp add: tok_eval)

text \<open>
  C9. The line \<^verbatim>\<open>echo "a b" c\<close> gives the tokens \<^verbatim>\<open>echo\<close>, \<^verbatim>\<open>a b\<close>, \<^verbatim>\<open>c\<close>, and the line
  \<^verbatim>\<open>echo a\ b\<close> gives \<^verbatim>\<open>echo\<close>, \<^verbatim>\<open>a b\<close>. In general: a pending escape appends the next
  character whatever it is and whether or not a quotation is open, and an unescaped
  backslash only sets the escape, inside quotes too; the character that opens a
  quotation and the one that closes it are not copied (so a line without backslashes
  that uses one kind of quote has no token containing it); and no token is empty,
  however many spaces separate the words.
\<close>

theorem tokenize_quotes_and_escapes:
  "tokenize (''echo '' @ [CHR 0x22] @ ''a b'' @ [CHR 0x22] @ '' c'') = [''echo'', ''a b'', ''c'']
   \<and> tokenize (''echo a'' @ [CHR 0x5C] @ '' b'') = [''echo'', ''a b'']
   \<and> (\<forall>(st::tok_state) c. escaped st \<longrightarrow>
          tok_step st c = st\<lparr>current := current st @ [c], escaped := False\<rparr>)
   \<and> (\<forall>st::tok_state. \<not> escaped st \<longrightarrow> tok_step st (CHR 0x5C) = st\<lparr>escaped := True\<rparr>)
   \<and> (\<forall>(st::tok_state) c. \<not> escaped st \<and> \<not> inQuotes st \<and> (c = CHR 0x22 \<or> c = CHR 0x27) \<longrightarrow>
          tok_step st c = st\<lparr>inQuotes := True, quoteChar := [c]\<rparr>)
   \<and> (\<forall>(st::tok_state) c. \<not> escaped st \<and> inQuotes st \<and> quoteChar st = [c] \<and> c \<noteq> CHR 0x5C \<longrightarrow>
          tok_step st c = st\<lparr>inQuotes := False, quoteChar := []\<rparr>)
   \<and> (\<forall>q input. (q = CHR 0x22 \<or> q = CHR 0x27) \<and> CHR 0x5C \<notin> set input
          \<and> (\<forall>c \<in> set input. c = CHR 0x22 \<or> c = CHR 0x27 \<longrightarrow> c = q) \<longrightarrow>
          (\<forall>t \<in> set (tokenize input). q \<notin> set t))
   \<and> (\<forall>input. [] \<notin> set (tokenize input))"
proof -
  have esc: "\<forall>(st::tok_state) c. escaped st \<longrightarrow>
          tok_step st c = st\<lparr>current := current st @ [c], escaped := False\<rparr>"
    by (simp add: tok_step_def)
  have bsl: "\<forall>st::tok_state. \<not> escaped st \<longrightarrow> tok_step st (CHR 0x5C) = st\<lparr>escaped := True\<rparr>"
    by (simp add: tok_step_def)
  have opn: "\<forall>(st::tok_state) c. \<not> escaped st \<and> \<not> inQuotes st \<and> (c = CHR 0x22 \<or> c = CHR 0x27) \<longrightarrow>
          tok_step st c = st\<lparr>inQuotes := True, quoteChar := [c]\<rparr>"
  proof (intro allI impI)
    fix st :: tok_state and c :: char
    assume "\<not> escaped st \<and> \<not> inQuotes st \<and> (c = CHR 0x22 \<or> c = CHR 0x27)"
    then show "tok_step st c = st\<lparr>inQuotes := True, quoteChar := [c]\<rparr>"
      by (cases "c = CHR 0x22") (simp_all add: tok_step_def)
  qed
  have cls: "\<forall>(st::tok_state) c. \<not> escaped st \<and> inQuotes st \<and> quoteChar st = [c] \<and> c \<noteq> CHR 0x5C \<longrightarrow>
          tok_step st c = st\<lparr>inQuotes := False, quoteChar := []\<rparr>"
    by (simp add: tok_step_def)
  have qfr: "\<forall>q input. (q = CHR 0x22 \<or> q = CHR 0x27) \<and> CHR 0x5C \<notin> set input
          \<and> (\<forall>c \<in> set input. c = CHR 0x22 \<or> c = CHR 0x27 \<longrightarrow> c = q) \<longrightarrow>
          (\<forall>t \<in> set (tokenize input). q \<notin> set t)"
  proof (intro allI impI ballI)
    fix q input t
    assume h: "(q = CHR 0x22 \<or> q = CHR 0x27) \<and> CHR 0x5C \<notin> set input
          \<and> (\<forall>c \<in> set input. c = CHR 0x22 \<or> c = CHR 0x27 \<longrightarrow> c = q)"
      and t: "t \<in> set (tokenize input)"
    from h have 1: "q = CHR 0x22 \<or> q = CHR 0x27" and 2: "CHR 0x5C \<notin> set input"
      and 3: "\<forall>c \<in> set input. c = CHR 0x22 \<or> c = CHR 0x27 \<longrightarrow> c = q"
      by simp_all
    from 1 2 3 t show "q \<notin> set t" by (rule tokenize_quote_free)
  qed
  have emp: "\<forall>input. [] \<notin> set (tokenize input)"
    by (simp add: tokenize_no_empty)
  show ?thesis
    by (intro conjI tokenize_echo_quoted tokenize_echo_escaped esc bsl opn cls qfr emp)
qed

theorem tokenize_quotes_and_escapes_witness:
  "tok_step (tok_step st_in_quotes (CHR 0x5C)) (CHR 0x22)
     = \<lparr>tokens = [], current = ''a'' @ [CHR 0x22], inQuotes = True, quoteChar = [CHR 0x22],
        escaped = False\<rparr>
   \<and> tok_step tok_init (CHR 0x27) = tok_init\<lparr>inQuotes := True, quoteChar := [CHR 0x27]\<rparr>
   \<and> tok_step st_in_quotes (CHR 0x22) = st_in_quotes\<lparr>inQuotes := False, quoteChar := []\<rparr>
   \<and> tokenize (''say   '' @ [CHR 0x22] @ ''x y'' @ [CHR 0x22]) = [''say'', ''x y'']
   \<and> CHR 0x22 \<notin> set (tokenize (''say   '' @ [CHR 0x22] @ ''x y'' @ [CHR 0x22]) ! 1)
   \<and> [] \<notin> set (tokenize (''say   '' @ [CHR 0x22] @ ''x y'' @ [CHR 0x22]))"
proof -
  note T = tokenize_quotes_and_escapes
  note esc = T[THEN conjunct2, THEN conjunct2, THEN conjunct1, rule_format]
  note bsl = T[THEN conjunct2, THEN conjunct2, THEN conjunct2, THEN conjunct1, rule_format]
  note opn = T[THEN conjunct2, THEN conjunct2, THEN conjunct2, THEN conjunct2,
               THEN conjunct1, rule_format]
  note cls = T[THEN conjunct2, THEN conjunct2, THEN conjunct2, THEN conjunct2,
               THEN conjunct2, THEN conjunct1, rule_format]
  note emp = T[THEN conjunct2, THEN conjunct2, THEN conjunct2, THEN conjunct2,
               THEN conjunct2, THEN conjunct2, THEN conjunct2, rule_format]
  have 1: "tok_step st_in_quotes (CHR 0x5C) = st_in_quotes\<lparr>escaped := True\<rparr>"
    by (rule bsl) (simp add: st_in_quotes_def)
  have 2: "tok_step (st_in_quotes\<lparr>escaped := True\<rparr>) (CHR 0x22)
           = \<lparr>tokens = [], current = ''a'' @ [CHR 0x22], inQuotes = True,
              quoteChar = [CHR 0x22], escaped = False\<rparr>"
    by (subst esc) (simp_all add: st_in_quotes_def)
  have 3: "tok_step tok_init (CHR 0x27) = tok_init\<lparr>inQuotes := True, quoteChar := [CHR 0x27]\<rparr>"
    by (rule opn) (simp_all add: tok_init_def)
  have 4: "tok_step st_in_quotes (CHR 0x22) = st_in_quotes\<lparr>inQuotes := False, quoteChar := []\<rparr>"
    by (rule cls) (simp_all add: st_in_quotes_def)
  have 5: "\<forall>t \<in> set (tokenize (''say   '' @ [CHR 0x22] @ ''x y'' @ [CHR 0x22])). CHR 0x22 \<notin> set t"
    using T[THEN conjunct2, THEN conjunct2, THEN conjunct2, THEN conjunct2, THEN conjunct2,
            THEN conjunct2, THEN conjunct1, rule_format,
            of "CHR 0x22" "''say   '' @ [CHR 0x22] @ ''x y'' @ [CHR 0x22]"]
    by simp
  have 6: "[] \<notin> set (tokenize (''say   '' @ [CHR 0x22] @ ''x y'' @ [CHR 0x22]))"
    by (rule emp)
  have 7: "tokenize (''say   '' @ [CHR 0x22] @ ''x y'' @ [CHR 0x22]) = [''say'', ''x y'']"
    by (simp add: tok_eval)
  have 8: "CHR 0x22 \<notin> set (tokenize (''say   '' @ [CHR 0x22] @ ''x y'' @ [CHR 0x22]) ! 1)"
    using 5 by (simp only: 7) simp
  show ?thesis using 1 2 3 4 6 7 8 by simp
qed

section \<open>Properties of the input parser\<close>

lemmas parse_eval = parseInput_def mk_parsed_def parse_vars_init_def parseLoop.simps
  processToken_def startsWith_def indexOf_def substring_def Let_def

lemma tokenize_ls_la: "tokenize ''ls -la /tmp'' = [''ls'', ''-la'', ''/tmp'']"
  by (simp add: tok_eval)

lemma parseInput_ls_la_value:
  "parseInput ''ls -la /tmp'' =
     \<lparr>args = [], flags = [''l'' \<mapsto> BoolV True, ''a'' \<mapsto> StrV ''/tmp''],
      redirectToFile = None, redirectMode = None, command = ''ls''\<rparr>"
  by (simp add: tokenize_ls_la parse_eval)

lemma tokenize_ls_la_alone: "tokenize ''ls -la'' = [''ls'', ''-la'']"
  by (simp add: tok_eval)

text \<open>Without a token after the group, both flags are boolean.\<close>

lemma parseInput_ls_la_alone:
  "parseInput ''ls -la'' =
     \<lparr>args = [], flags = [''l'' \<mapsto> BoolV True, ''a'' \<mapsto> BoolV True],
      redirectToFile = None, redirectMode = None, command = ''ls''\<rparr>"
  by (simp add: tokenize_ls_la_alone parse_eval)

lemma tokenize_rm_rf: "tokenize ''rm -rf dir'' = [''rm'', ''-rf'', ''dir'']"
  by (simp add: tok_eval)

text \<open>The same look-ahead leaves \<^verbatim>\<open>rm -rf dir\<close> without arguments.\<close>

lemma parseInput_rm_rf:
  "parseInput ''rm -rf dir'' =
     \<lparr>args = [], flags = [''r'' \<mapsto> BoolV True, ''f'' \<mapsto> StrV ''dir''],
      redirectToFile = None, redirectMode = None, command = ''rm''\<rparr>"
  by (simp add: tokenize_rm_rf parse_eval)

text \<open>
  C1. The specification has \<^verbatim>\<open>ls -la /tmp\<close> parse to the command \<^verbatim>\<open>ls\<close>, the flags \<^verbatim>\<open>l\<close>
  and \<^verbatim>\<open>a\<close> both true, and the argument \<^verbatim>\<open>/tmp\<close>. What the parser returns on that line:
  the flag \<^verbatim>\<open>a\<close> holds the string \<^verbatim>\<open>/tmp\<close>, so \<^verbatim>\<open>hasFlag\<close> does not see it, and there is
  no argument left for the directory.
\<close>

theorem parseInput_ls_la:
  "parseInput ''ls -la /tmp'' =
     \<lparr>args = [], flags = [''l'' \<mapsto> BoolV True, ''a'' \<mapsto> StrV ''/tmp''],
      redirectToFile = None, redirectMode = None, command = ''ls''\<rparr>
   \<and> hasFlag (flags (parseInput ''ls -la /tmp'')) ''l''
   \<and> \<not> hasFlag (flags (parseInput ''ls -la /tmp'')) ''a''
   \<and> args (parseInput ''ls -la /tmp'') \<noteq> [''/tmp'']"
  by (simp add: parseInput_ls_la_value hasFlag_def)

lemma tokenize_ls_l_redirect:
  "tokenize ''ls -l > out.txt'' = [''ls'', ''-l'', ''>'', ''out.txt'']"
  by (simp add: tok_eval)

lemma tokenize_ls_o: "tokenize ''ls -o out.txt'' = [''ls'', ''-o'', ''out.txt'']"
  by (simp add: tok_eval)

text \<open>
  C2, what the parser does on its two lines: in \<^verbatim>\<open>ls -l > out.txt\<close> the look-ahead of
  the flag \<^verbatim>\<open>l\<close> takes the operator \<^verbatim>\<open>>\<close> as its value, \<^verbatim>\<open>out.txt\<close> becomes an argument
  and no redirection is recorded; in \<^verbatim>\<open>ls -o out.txt\<close> the flag \<^verbatim>\<open>o\<close> takes \<^verbatim>\<open>out.txt\<close>
  as its value and there is no redirection.
\<close>

theorem parseInput_flag_takes_redirect_operator:
  "parseInput ''ls -l > out.txt'' =
     \<lparr>args = [''out.txt''], flags = [''l'' \<mapsto> StrV ''>''],
      redirectToFile = None, redirectMode = None, command = ''ls''\<rparr>
   \<and> parseInput ''ls -o out.txt'' =
     \<lparr>args = [], flags = [''o'' \<mapsto> StrV ''out.txt''],
      redirectToFile = None, redirectMode = None, command = ''ls''\<rparr>"
  by (simp add: tokenize_ls_l_redirect tokenize_ls_o parse_eval)

section \<open>Properties of the virtual file system\<close>

lemmas vfs_eval = newVirtualFileSystem_def createInitialStructure_def createNode_def
  getAbsolutePath_def pathParts_def getNodeByPath_def getCurrentDirectoryNode_def startsWith_def
  endsWith_def resolvePath_def getNode_def exists_def currentParts_def nodeParts_def
  normalizeDisplayPath_def Let_def

lemma children_setChild [simp]:
  "children (setChild k c n) = (case children n of None \<Rightarrow> None | Some cs \<Rightarrow> Some (AList.update k c cs))"
  by (cases n) simp
lemma ntype_setChild [simp]: "ntype (setChild k c n) = ntype n" by (cases n) simp
lemma children_deleteChild [simp]:
  "children (deleteChild k n) = (case children n of None \<Rightarrow> None | Some cs \<Rightarrow> Some (AList.delete k cs))"
  by (cases n) simp
lemma ntype_deleteChild [simp]: "ntype (deleteChild k n) = ntype n" by (cases n) simp
lemma children_setModified [simp]: "children (setModified t n) = children n" by (cases n) simp
lemma ntype_setModified [simp]: "ntype (setModified t n) = ntype n" by (cases n) simp
lemma content_setModified [simp]: "content (setModified t n) = content n" by (cases n) simp
lemma children_setContent [simp]: "children (setContent c n) = children n" by (cases n) simp
lemma ntype_setContent [simp]: "ntype (setContent c n) = ntype n" by (cases n) simp
lemma content_setContent [simp]: "content (setContent c n) = Some c" by (cases n) simp

lemma map_of_update_same: "map_of (AList.update k v cs) k = Some v"
  by (simp add: update_conv')
lemma map_of_update_other: "q \<noteq> k \<Longrightarrow> map_of (AList.update k v cs) q = map_of cs q"
  by (simp add: update_conv')
lemma map_of_delete_same: "map_of (AList.delete k cs) k = None"
  by (simp add: delete_conv')

lemma walk_modify_same:
  "walk r ps = Some n \<Longrightarrow> walk (modify ps f r) ps = Some (f n)"
proof (induction ps arbitrary: r)
  case Nil
  then show ?case by simp
next
  case (Cons p ps)
  from Cons.prems obtain cs c where cs: "children r = Some cs" and c: "map_of cs p = Some c"
    and w: "walk c ps = Some n"
    by (auto split: option.splits)
  have "walk (modify ps f c) ps = Some (f n)" using w by (rule Cons.IH)
  then show ?case using cs c by (simp add: map_of_update_same)
qed

lemma getNodeByPath_walk: "getNodeByPath fs p = walk (root fs) (pathParts p)"
  by (simp add: getNodeByPath_def pathParts_def)

lemma getCurrentDirectoryNode_walk: "getCurrentDirectoryNode fs = walk (root fs) (currentParts fs)"
  by (simp add: getCurrentDirectoryNode_def getNodeByPath_walk currentParts_def)

lemma includes_str_char: "includes_str s [c] \<longleftrightarrow> c \<in> set s"
  by (induction s) (auto simp: startsWith_def)

lemma getNode_bare:
  "\<not> includes_str x ''/'' \<Longrightarrow>
   getNode fs x = (case walk (root fs) (currentParts fs) of
                     None \<Rightarrow> None
                   | Some cn \<Rightarrow> (case children cn of None \<Rightarrow> None | Some cs \<Rightarrow> map_of cs x))"
  by (simp add: getNode_def getCurrentDirectoryNode_walk)

lemma currentParts_root_update [simp]: "currentParts (fs\<lparr>root := r\<rparr>) = currentParts fs"
  by (simp add: currentParts_def getAbsolutePath_def)

lemma walk_append:
  "walk r (ps @ qs) = (case walk r ps of None \<Rightarrow> None | Some n \<Rightarrow> walk n qs)"
  by (induction ps arbitrary: r) (auto split: option.splits)

lemma fs_at_home_value: "fs_at_home = fs0\<lparr>currentPath := ''/home''\<rparr>"
  by (simp add: fs_at_home_def fs0_def vfs_eval setCurrentDirectory_def)

lemma createFile_success:
  assumes bare: "\<not> includes_str x ''/''" and ok: "createFile fs now x c1 = (True, fs1)"
  shows "exists fs1 x \<and> readFile fs1 x = Some c1 \<and> createFile fs1 now' x c2 = (False, fs1)"
proof -
  from ok obtain cn cs where cn: "getCurrentDirectoryNode fs = Some cn"
    and cs: "children cn = Some cs"
    and fs1: "fs1 = fs\<lparr>root := modify (currentParts fs)
                (\<lambda>n. setModified now (setChild x (createNode now x File (Some c1)) n)) (root fs)\<rparr>"
    by (auto simp: createFile_def Let_def split: if_splits option.splits)
  let ?file = "createNode now x File (Some c1)"
  let ?f = "\<lambda>n. setModified now (setChild x ?file n)"
  have "walk (root fs) (currentParts fs) = Some cn"
    using cn by (simp add: getCurrentDirectoryNode_walk)
  then have w1: "walk (root fs1) (currentParts fs1) = Some (?f cn)"
    unfolding fs1 by (simp add: walk_modify_same)
  have ch: "children (?f cn) = Some (AList.update x ?file cs)"
    using cs by simp
  have g: "getNode fs1 x = Some ?file"
    using bare w1 ch by (simp add: getNode_bare map_of_update_same)
  have ex: "exists fs1 x" using g by (simp add: exists_def)
  have rd: "readFile fs1 x = Some c1"
    using g by (simp add: readFile_def createNode_def)
  have again: "createFile fs1 now' x c2 = (False, fs1)"
    using ex by (simp add: createFile_def)
  from ex rd again show ?thesis by simp
qed

text \<open>
  C7. For every name \<open>x\<close> (a bare name, without a slash) in the current directory:
  after a successful \<^verbatim>\<open>createFile(x)\<close>, \<^verbatim>\<open>exists(x)\<close> is true and the file holds the
  content it was created with; a second \<^verbatim>\<open>createFile(x)\<close> returns false and returns the
  file system as it was, the first file's content and the rest of the tree included.
\<close>

theorem createFile_then_exists:
  assumes "\<not> includes_str x ''/''" and "createFile fs now x c1 = (True, fs1)"
  shows "exists fs1 x \<and> readFile fs1 x = Some c1 \<and> createFile fs1 now' x c2 = (False, fs1)"
  using assms by (rule createFile_success)

theorem createFile_then_exists_witness:
  "fst (createFile fs0 1 ''x'' ''first'')
   \<and> exists (snd (createFile fs0 1 ''x'' ''first'')) ''x''
   \<and> readFile (snd (createFile fs0 1 ''x'' ''first'')) ''x'' = Some ''first''
   \<and> createFile (snd (createFile fs0 1 ''x'' ''first'')) 2 ''x'' ''second''
       = (False, snd (createFile fs0 1 ''x'' ''first''))"
proof -
  have bare: "\<not> includes_str ''x'' ''/''" by (simp add: startsWith_def)
  have ok: "fst (createFile fs0 1 ''x'' ''first'')"
    by (simp add: fs0_def vfs_eval createFile_def)
  then have "createFile fs0 1 ''x'' ''first'' = (True, snd (createFile fs0 1 ''x'' ''first''))"
    by (simp add: prod_eq_iff)
  from createFile_then_exists[OF bare this, of 2 "''second''"] ok show ?thesis by simp
qed

text \<open>
  A name with a slash is looked up as a path by \<^verbatim>\<open>exists\<close> but stored by \<^verbatim>\<open>createFile\<close>
  under the whole string as a key of the current directory, so it is not found again.
\<close>

lemma createFile_slash:
  "fst (createFile fs0 1 ''a/b'' ''first'')
   \<and> \<not> exists (snd (createFile fs0 1 ''a/b'' ''first'')) ''a/b''"
  by (simp add: fs0_def vfs_eval createFile_def)

text \<open>
  C8. For every non-empty directory entry \<open>d\<close> (a bare name) of the current directory:
  \<^verbatim>\<open>deleteNode(d, false)\<close> returns false and returns the file system as it was;
  \<^verbatim>\<open>deleteNode(d, true)\<close> returns true, afterwards \<^verbatim>\<open>exists(d)\<close> is false and no path
  through \<open>d\<close> reaches a node.
\<close>

theorem deleteNode_non_empty_directory:
  assumes bare: "\<not> includes_str d ''/''" and nd: "getNode fs d = Some nd"
    and dir: "ntype nd = Directory" and ds: "children nd = Some ds" and ne: "ds \<noteq> []"
  shows "deleteNode fs now d False = (False, fs)
         \<and> fst (deleteNode fs now d True)
         \<and> \<not> exists (snd (deleteNode fs now d True)) d
         \<and> (\<forall>rest. walk (root (snd (deleteNode fs now d True))) (currentParts fs @ d # rest)
                    = None)"
proof -
  from nd bare obtain cn cs where cn: "walk (root fs) (currentParts fs) = Some cn"
    and cs: "children cn = Some cs" and m: "map_of cs d = Some nd"
    by (auto simp: getNode_bare split: option.splits)
  have cn': "getCurrentDirectoryNode fs = Some cn"
    using cn by (simp add: getCurrentDirectoryNode_walk)
  let ?f = "\<lambda>n. setModified now (deleteChild d n)"
  let ?fs' = "fs\<lparr>root := modify (currentParts fs) ?f (root fs)\<rparr>"
  have keep: "deleteNode fs now d False = (False, fs)"
    using cn' cs m dir ds ne by (simp add: deleteNode_def)
  have del: "deleteNode fs now d True = (True, ?fs')"
    using cn' cs m by (simp add: deleteNode_def)
  have w: "walk (root ?fs') (currentParts fs) = Some (?f cn)"
    using cn by (simp add: walk_modify_same)
  have ch: "children (?f cn) = Some (AList.delete d cs)"
    using cs by simp
  have gone: "getNode ?fs' d = None"
    using bare w ch by (simp add: getNode_bare map_of_delete_same)
  have sub: "walk (root ?fs') (currentParts fs @ d # rest) = None" for rest
    using w ch by (simp add: walk_append map_of_delete_same)
  show ?thesis using keep del gone sub by (simp add: exists_def)
qed

theorem deleteNode_non_empty_directory_witness:
  "deleteNode fs_at_home 7 ''user'' False = (False, fs_at_home)
   \<and> fst (deleteNode fs_at_home 7 ''user'' True)
   \<and> \<not> exists (snd (deleteNode fs_at_home 7 ''user'' True)) ''user''
   \<and> walk (root (snd (deleteNode fs_at_home 7 ''user'' True))) [''home'', ''user'', ''Documents'']
       = None"
proof -
  have bare: "\<not> includes_str ''user'' ''/''" by (simp add: startsWith_def)
  obtain nd where nd: "getNode fs_at_home ''user'' = Some nd" and dir: "ntype nd = Directory"
    and ds: "children nd \<noteq> None" and ne: "the (children nd) \<noteq> []"
    by (simp add: fs_at_home_value fs0_def vfs_eval)
  from ds obtain l where l: "children nd = Some l" by auto
  with ne have l': "l \<noteq> []" by simp
  have cp: "currentParts fs_at_home = [''home'']"
    by (simp add: fs_at_home_value fs0_def vfs_eval)
  from deleteNode_non_empty_directory[OF bare nd dir l l', of 7] cp
  show ?thesis by auto
qed


lemma startsWith_iff: "startsWith s p \<longleftrightarrow> (\<exists>t. s = p @ t)"
  unfolding startsWith_def by (metis append_eq_conv_conj append_take_drop_id)

lemma startsWith_slash: "startsWith s ''/'' \<longleftrightarrow> (\<exists>t. s = CHR ''/'' # t)"
  by (cases s) (auto simp: startsWith_def)

lemma getAbsolutePath_abs:
  "startsWith (homeDirectory fs) ''/'' \<Longrightarrow> startsWith (getAbsolutePath fs p) ''/''"
  by (auto simp: getAbsolutePath_def startsWith_slash)

lemma resolvePath_abs:
  assumes "startsWith (homeDirectory fs) ''/''"
  shows "startsWith (resolvePath fs p) ''/''"
proof -
  from getAbsolutePath_abs[OF assms] obtain t where "getAbsolutePath fs (currentPath fs) = CHR ''/'' # t"
    by (auto simp: startsWith_slash)
  then show ?thesis using assms
    by (auto simp: resolvePath_def Let_def startsWith_slash)
qed

lemma getAbsolutePath_normalize:
  assumes "startsWith r ''/''"
  shows "getAbsolutePath fs (normalizeDisplayPath fs r) = r"
proof -
  from assms obtain t where r: "r = CHR ''/'' # t" by (auto simp: startsWith_slash)
  show ?thesis
  proof (cases "r = homeDirectory fs")
    case True
    then show ?thesis by (simp add: normalizeDisplayPath_def getAbsolutePath_def)
  next
    case False
    show ?thesis
    proof (cases "startsWith r (homeDirectory fs @ ''/'')")
      case True
      then obtain u where u: "r = homeDirectory fs @ CHR ''/'' # u"
        by (auto simp: startsWith_iff)
      then show ?thesis using False True
        by (simp add: normalizeDisplayPath_def getAbsolutePath_def startsWith_def)
    next
      case nh: False
      then show ?thesis using False r
        by (simp add: normalizeDisplayPath_def getAbsolutePath_def startsWith_def)
    qed
  qed
qed

lemma walk_modify_kind:
  assumes "\<And>n. ntype (f n) = ntype n" and "\<And>n. children (f n) = children n"
  shows "walk r qs = Some n \<Longrightarrow> \<exists>n'. walk (modify ps f r) qs = Some n' \<and> ntype n' = ntype n"
proof (induction qs arbitrary: r ps)
  case Nil
  then show ?case by (cases ps) (auto simp: assms split: option.splits)
next
  case (Cons q qs)
  from Cons.prems obtain cs c where cs: "children r = Some cs" and c: "map_of cs q = Some c"
    and w: "walk c qs = Some n"
    by (auto split: option.splits)
  show ?case
  proof (cases ps)
    case Nil
    then show ?thesis using cs c w by (simp add: assms)
  next
    case (Cons p ps')
    show ?thesis
    proof (cases "map_of cs p")
      case None
      then show ?thesis using Cons cs c w by simp
    next
      case (Some c')
      show ?thesis
      proof (cases "q = p")
        case True
        with Some c have cc: "c' = c" by simp
        from Cons.IH[OF w, of ps'] obtain n' where
          "walk (modify ps' f c) qs = Some n'" "ntype n' = ntype n" by blast
        then show ?thesis using Cons cs Some cc True by (simp add: map_of_update_same)
      next
        case False
        then show ?thesis using Cons cs c w Some by (simp add: map_of_update_other)
      qed
    qed
  qed
qed


lemma cwd_ok_walk:
  "cwd_ok fs \<longleftrightarrow> startsWith (homeDirectory fs) ''/''
     \<and> (\<exists>n. walk (root fs) (currentParts fs) = Some n \<and> ntype n = Directory)"
  by (simp add: cwd_ok_def getCurrentDirectoryNode_walk)

lemma cwd_ok_new: "cwd_ok (newVirtualFileSystem now ''/home/user'')"
  by (simp add: cwd_ok_def vfs_eval)

lemma getAbsolutePath_currentPath_update:
  "getAbsolutePath (fs\<lparr>currentPath := x\<rparr>) p = getAbsolutePath fs p"
  by (simp add: getAbsolutePath_def)

lemma cwd_ok_setCurrentDirectory:
  assumes "cwd_ok fs"
  shows "cwd_ok (snd (setCurrentDirectory fs path))"
proof (cases "\<exists>nd. getNodeByPath fs (resolvePath fs path) = Some nd \<and> ntype nd = Directory")
  case False
  then have "setCurrentDirectory fs path = (False, fs)"
    by (auto simp: setCurrentDirectory_def Let_def split: option.splits)
  then show ?thesis using assms by simp
next
  case True
  then obtain nd where nd: "getNodeByPath fs (resolvePath fs path) = Some nd"
    and dir: "ntype nd = Directory" by blast
  let ?r = "resolvePath fs path"
  let ?fs' = "fs\<lparr>currentPath := normalizeDisplayPath fs ?r\<rparr>"
  have eq: "setCurrentDirectory fs path = (True, ?fs')"
    using nd dir by (simp add: setCurrentDirectory_def Let_def)
  have home: "startsWith (homeDirectory fs) ''/''" using assms by (simp add: cwd_ok_def)
  have "startsWith ?r ''/''" using home by (rule resolvePath_abs)
  then have "getAbsolutePath fs (normalizeDisplayPath fs ?r) = ?r"
    by (rule getAbsolutePath_normalize)
  then have "getAbsolutePath ?fs' (currentPath ?fs') = ?r"
    by (simp add: getAbsolutePath_currentPath_update)
  moreover have "getNodeByPath ?fs' ?r = getNodeByPath fs ?r"
    by (simp add: getNodeByPath_def)
  ultimately have "getCurrentDirectoryNode ?fs' = Some nd"
    using nd by (simp only: getCurrentDirectoryNode_def)
  then show ?thesis using eq dir home by (simp add: cwd_ok_def)
qed

lemma cwd_ok_modify_current:
  assumes "cwd_ok fs" and "\<And>n. ntype (f n) = ntype n"
  shows "cwd_ok (fs\<lparr>root := modify (currentParts fs) f (root fs)\<rparr>)"
proof -
  from assms(1) obtain n where n: "walk (root fs) (currentParts fs) = Some n"
    and dir: "ntype n = Directory" and home: "startsWith (homeDirectory fs) ''/''"
    by (auto simp: cwd_ok_walk)
  have "walk (modify (currentParts fs) f (root fs)) (currentParts fs) = Some (f n)"
    using n by (rule walk_modify_same)
  then show ?thesis using dir home assms(2) by (simp add: cwd_ok_walk)
qed

lemma cwd_ok_modify_content:
  assumes "cwd_ok fs" and "\<And>n. ntype (f n) = ntype n" and "\<And>n. children (f n) = children n"
  shows "cwd_ok (fs\<lparr>root := modify ps f (root fs)\<rparr>)"
proof -
  from assms(1) obtain n where n: "walk (root fs) (currentParts fs) = Some n"
    and dir: "ntype n = Directory" and home: "startsWith (homeDirectory fs) ''/''"
    by (auto simp: cwd_ok_walk)
  from walk_modify_kind[of f, OF assms(2,3) n, of ps]
  show ?thesis using dir home by (auto simp: cwd_ok_walk)
qed

lemma cwd_ok_createFile: "cwd_ok fs \<Longrightarrow> cwd_ok (snd (createFile fs now nm cont))"
  by (auto simp: createFile_def Let_def cwd_ok_modify_current split: option.splits)

lemma cwd_ok_createDirectory: "cwd_ok fs \<Longrightarrow> cwd_ok (snd (createDirectory fs now nm))"
  by (auto simp: createDirectory_def Let_def cwd_ok_modify_current split: option.splits)

lemma cwd_ok_deleteNode: "cwd_ok fs \<Longrightarrow> cwd_ok (snd (deleteNode fs now nm recursive))"
  by (auto simp: deleteNode_def Let_def cwd_ok_modify_current split: option.splits)

lemma cwd_ok_writeFile: "cwd_ok fs \<Longrightarrow> cwd_ok (snd (writeFile fs now nm cont))"
  by (auto simp: writeFile_def cwd_ok_createFile cwd_ok_modify_content split: option.splits)

lemma cwd_ok_apply_op: "cwd_ok fs \<Longrightarrow> cwd_ok (apply_op fs op)"
  by (cases op)
    (simp_all add: cwd_ok_setCurrentDirectory cwd_ok_createFile cwd_ok_createDirectory
      cwd_ok_deleteNode cwd_ok_writeFile)

lemma cwd_ok_run: "cwd_ok fs \<Longrightarrow> cwd_ok (foldl apply_op fs ops)"
  by (induction ops arbitrary: fs) (simp_all add: cwd_ok_apply_op)

text \<open>
  C5. The current path always resolves to an existing directory: in the file system
  that any sequence of the changing operations produces from the seeded tree, the
  current path resolves to a node of type directory; and \<^verbatim>\<open>setCurrentDirectory\<close> on a
  path that does not resolve to an existing directory returns false and the unchanged
  file system, current path included.
\<close>

theorem currentPath_resolves_to_directory:
  "map_option ntype
     (getCurrentDirectoryNode (foldl apply_op (newVirtualFileSystem now ''/home/user'') ops))
     = Some Directory
   \<and> (map_option ntype (getNodeByPath fs (resolvePath fs path)) \<noteq> Some Directory
        \<longrightarrow> setCurrentDirectory fs path = (False, fs))"
proof -
  have "cwd_ok (foldl apply_op (newVirtualFileSystem now ''/home/user'') ops)"
    using cwd_ok_new by (rule cwd_ok_run)
  then have 1: "map_option ntype
     (getCurrentDirectoryNode (foldl apply_op (newVirtualFileSystem now ''/home/user'') ops))
     = Some Directory"
    by (auto simp: cwd_ok_def)
  have 2: "setCurrentDirectory fs path = (False, fs)"
    if "map_option ntype (getNodeByPath fs (resolvePath fs path)) \<noteq> Some Directory"
    using that by (auto simp: setCurrentDirectory_def Let_def split: option.splits)
  from 1 2 show ?thesis by blast
qed

theorem currentPath_resolves_to_directory_witness:
  "map_option ntype
     (getCurrentDirectoryNode
        (foldl apply_op fs0
           [SetCurrentDirectory ''Documents'', CreateDirectory 1 ''work'',
            SetCurrentDirectory ''work'', WriteFile 2 ''notes'' ''n'',
            SetCurrentDirectory ''..'', DeleteNode 3 ''work'' True]))
     = Some Directory
   \<and> map_option ntype (getNodeByPath fs0 (resolvePath fs0 ''readme.txt'')) = Some File
   \<and> setCurrentDirectory fs0 ''readme.txt'' = (False, fs0)
   \<and> getNodeByPath fs0 (resolvePath fs0 ''nowhere'') = None
   \<and> setCurrentDirectory fs0 ''nowhere'' = (False, fs0)"
proof -
  have a: "map_option ntype (getNodeByPath fs0 (resolvePath fs0 ''readme.txt'')) = Some File"
    by (simp add: fs0_def vfs_eval)
  have b: "getNodeByPath fs0 (resolvePath fs0 ''nowhere'') = None"
    by (simp add: fs0_def vfs_eval)
  note T = currentPath_resolves_to_directory
  have 1: "map_option ntype
     (getCurrentDirectoryNode
        (foldl apply_op fs0
           [SetCurrentDirectory ''Documents'', CreateDirectory 1 ''work'',
            SetCurrentDirectory ''work'', WriteFile 2 ''notes'' ''n'',
            SetCurrentDirectory ''..'', DeleteNode 3 ''work'' True]))
     = Some Directory"
    unfolding fs0_def by (rule T[THEN conjunct1])
  have 2: "setCurrentDirectory fs0 ''readme.txt'' = (False, fs0)"
    by (rule T[THEN conjunct2, rule_format]) (simp add: a)
  have 3: "setCurrentDirectory fs0 ''nowhere'' = (False, fs0)"
    by (rule T[THEN conjunct2, rule_format]) (simp add: b)
  from 1 a 2 b 3 show ?thesis by simp
qed


lemma set_insertBy: "set (insertBy cmp x ys) = insert x (set ys)"
  by (induction ys) auto

lemma set_sortBy: "set (sortBy cmp xs) = set xs"
  by (induction xs) (simp_all add: set_insertBy)

lemma length_insertBy: "length (insertBy cmp x ys) = Suc (length ys)"
  by (induction ys) auto

lemma length_sortBy: "length (sortBy cmp xs) = length xs"
  by (induction xs) (simp_all add: length_insertBy)

lemma distinct_map_insertBy:
  "distinct (map f (insertBy cmp x ys)) \<longleftrightarrow> f x \<notin> f ` set ys \<and> distinct (map f ys)"
  by (induction ys) (auto simp: set_insertBy)

lemma distinct_map_sortBy: "distinct (map f (sortBy cmp xs)) \<longleftrightarrow> distinct (map f xs)"
  by (induction xs) (simp_all add: distinct_map_insertBy set_sortBy)

lemma sorted_insertBy:
  assumes total: "\<And>a b. cmp a b \<le> 0 \<or> cmp b a \<le> 0"
    and trans: "\<And>a b c. cmp a b \<le> 0 \<Longrightarrow> cmp b c \<le> 0 \<Longrightarrow> cmp a c \<le> 0"
  shows "sorted_wrt (\<lambda>a b. cmp a b \<le> 0) ys \<Longrightarrow> sorted_wrt (\<lambda>a b. cmp a b \<le> 0) (insertBy cmp x ys)"
proof (induction ys)
  case Nil
  show ?case by simp
next
  case (Cons y ys)
  show ?case
  proof (cases "cmp x y \<le> 0")
    case True
    then have "cmp x z \<le> 0" if "z \<in> set ys" for z
      using Cons.prems that trans by auto
    then show ?thesis using True Cons.prems by auto
  next
    case False
    then have "cmp y x \<le> 0" using total by blast
    then show ?thesis using False Cons by (auto simp: set_insertBy)
  qed
qed

lemma sorted_sortBy:
  assumes total: "\<And>a b. cmp a b \<le> 0 \<or> cmp b a \<le> 0"
    and trans: "\<And>a b c. cmp a b \<le> 0 \<Longrightarrow> cmp b c \<le> 0 \<Longrightarrow> cmp a c \<le> 0"
  shows "sorted_wrt (\<lambda>a b. cmp a b \<le> 0) (sortBy cmp xs)"
proof (induction xs)
  case Nil
  show ?case by simp
next
  case (Cons x xs)
  then show ?case using sorted_insertBy[of cmp, OF total trans] by simp
qed

lemma compareNodes_total:
  assumes "\<And>a b. lc a b \<le> 0 \<or> lc b a \<le> 0"
  shows "compareNodes lc a b \<le> 0 \<or> compareNodes lc b a \<le> 0"
  using assms[of "name a" "name b"]
  by (cases "ntype a"; cases "ntype b") (simp_all add: compareNodes_def)

lemma compareNodes_trans:
  assumes "\<And>a b c. lc a b \<le> 0 \<Longrightarrow> lc b c \<le> 0 \<Longrightarrow> lc a c \<le> 0"
    and "compareNodes lc a b \<le> 0" and "compareNodes lc b c \<le> 0"
  shows "compareNodes lc a c \<le> 0"
  using assms(2,3) assms(1)[of "name a" "name b" "name c"]
  by (cases "ntype a"; cases "ntype b"; cases "ntype c") (simp_all add: compareNodes_def)

lemma directories_first:
  assumes "sorted_wrt (\<lambda>a b. compareNodes lc a b \<le> 0) xs"
  shows "xs = filter (\<lambda>n. ntype n = Directory) xs @ filter (\<lambda>n. ntype n = File) xs"
  using assms
proof (induction xs)
  case Nil
  show ?case by simp
next
  case (Cons x xs)
  then have IH: "xs = filter (\<lambda>n. ntype n = Directory) xs @ filter (\<lambda>n. ntype n = File) xs"
    by simp
  show ?case
  proof (cases "ntype x")
    case Directory
    then show ?thesis using IH by simp
  next
    case File
    have "ntype z = File" if "z \<in> set xs" for z
    proof -
      from Cons.prems that have "compareNodes lc x z \<le> 0" by auto
      then show ?thesis using File by (cases "ntype z") (simp_all add: compareNodes_def)
    qed
    then have "filter (\<lambda>n. ntype n = Directory) xs = []" and "filter (\<lambda>n. ntype n = File) xs = xs"
      by (auto simp: filter_empty_conv filter_id_conv)
    then show ?thesis using File by simp
  qed
qed

lemma group_sorted:
  assumes "sorted_wrt (\<lambda>a b. compareNodes lc a b \<le> 0) xs"
  shows "sorted_wrt (\<lambda>a b. lc (name a) (name b) \<le> 0) (filter (\<lambda>n. ntype n = ty) xs)"
proof -
  have "sorted_wrt (\<lambda>a b. compareNodes lc a b \<le> 0) (filter (\<lambda>n. ntype n = ty) xs)"
    using assms by (rule sorted_wrt_filter)
  then show ?thesis
    by (rule sorted_wrt_mono_rel[rotated]) (simp add: compareNodes_def)
qed

lemma wf_node_iff:
  "wf_node n \<longleftrightarrow>
     (case children n of
        None \<Rightarrow> True
      | Some cs \<Rightarrow> distinct (map fst cs) \<and> (\<forall>(k, c) \<in> set cs. k = name c \<and> wf_node c))"
  by (cases n) simp

lemma wf_node_walk: "wf_node r \<Longrightarrow> walk r ps = Some n \<Longrightarrow> wf_node n"
proof (induction ps arbitrary: r)
  case Nil
  then show ?case by simp
next
  case (Cons p ps)
  from Cons.prems(2) obtain cs c where cs: "children r = Some cs" and c: "map_of cs p = Some c"
    and w: "walk c ps = Some n"
    by (auto split: option.splits)
  from c have "(p, c) \<in> set cs" by (rule map_of_SomeD)
  with Cons.prems(1) cs have "wf_node c" by (subst (asm) wf_node_iff) auto
  then show ?case using w by (rule Cons.IH)
qed

lemma wf_node_names:
  assumes "wf_node n" and "children n = Some cs"
  shows "map name (map snd cs) = map fst cs" and "distinct (map fst cs)"
proof -
  from assms have d: "distinct (map fst cs)" and k: "\<forall>(k, c) \<in> set cs. k = name c"
    by (subst (asm) wf_node_iff, auto)+
  from k show "map name (map snd cs) = map fst cs" by (induction cs) auto
  from d show "distinct (map fst cs)" .
qed


lemma defaultCollation_le:
  "defaultCollation a b \<le> 0 \<longleftrightarrow>
     toLowerCase a < toLowerCase b
     \<or> (toLowerCase a = toLowerCase b \<and> map isUpper a \<le> map isUpper b)"
  by (auto simp: defaultCollation_def)

lemmas collation_eval = defaultCollation_def toLowerCase_def lowerChar_def isUpper_def
  less_char_def

lemma fs_listing_names:
  "map name (listDirectory defaultCollation fs_listing None)
     = [''beta'', ''Documents'', ''Downloads'', ''Pictures'', ''Videos'',
        ''alpha'', ''readme.txt'', ''script.sh'', ''Zeta'']"
  by (simp add: fs_listing_def fs0_def vfs_eval createFile_def createDirectory_def
      listDirectory_def targetPath_def compareNodes_def collation_eval)

lemma fs_listing_types:
  "map ntype (listDirectory defaultCollation fs_listing None)
     = [Directory, Directory, Directory, Directory, Directory, File, File, File, File]"
  by (simp add: fs_listing_def fs0_def vfs_eval createFile_def createDirectory_def
      listDirectory_def targetPath_def compareNodes_def collation_eval)

lemma defaultCollation_total:
  "\<forall>a b. defaultCollation a b \<le> 0 \<or> defaultCollation b a \<le> 0"
  by (auto simp: defaultCollation_le)

lemma defaultCollation_trans:
  "\<forall>a b c. defaultCollation a b \<le> 0 \<and> defaultCollation b c \<le> 0
     \<longrightarrow> defaultCollation a c \<le> 0"
  by (auto simp: defaultCollation_le)

lemma fs_listing_wf: "wf_node (root fs_listing)"
  by (simp add: fs_listing_def fs0_def vfs_eval createFile_def createDirectory_def)

text \<open>
  C6, as the specification states it: each group of the listing is in case-sensitive
  lexicographic order, the order of the character codes. It is not: with the default
  collation the home directory lists \<^verbatim>\<open>beta\<close> before \<^verbatim>\<open>Documents\<close> and \<^verbatim>\<open>script.sh\<close>
  before \<^verbatim>\<open>Zeta\<close>, and neither the five directories nor the four files are in the
  order of the codes.
\<close>

theorem listDirectory_not_in_code_order:
  "map name (listDirectory defaultCollation fs_listing None)
     = [''beta'', ''Documents'', ''Downloads'', ''Pictures'', ''Videos'',
        ''alpha'', ''readme.txt'', ''script.sh'', ''Zeta'']
   \<and> map ntype (listDirectory defaultCollation fs_listing None)
     = [Directory, Directory, Directory, Directory, Directory, File, File, File, File]
   \<and> \<not> sorted (take 5 (map name (listDirectory defaultCollation fs_listing None)))
   \<and> \<not> sorted (drop 5 (map name (listDirectory defaultCollation fs_listing None)))"
  by (simp add: fs_listing_names fs_listing_types less_eq_char_def)

text \<open>
  C6, amended. For every existing directory of a well-formed tree, \<^verbatim>\<open>listDirectory\<close>
  returns its children (each once) with no duplicate names, all directories before all
  files, and each group in the order of \<^verbatim>\<open>localeCompare\<close> on the names: the host's
  collation, whatever total and transitive comparison that is, and in particular the
  default collation (letters without regard to case first, lower case before upper
  case on a tie), not the order of the character codes. For a missing or non-directory
  target it returns the empty list.
\<close>

theorem listDirectory_sorted:
  assumes wf: "wf_node (root fs)"
    and total: "\<forall>a b. localeCompare a b \<le> 0 \<or> localeCompare b a \<le> 0"
    and trans: "\<forall>a b c. localeCompare a b \<le> 0 \<and> localeCompare b c \<le> 0
                  \<longrightarrow> localeCompare a c \<le> 0"
  shows "distinct (map name (listDirectory localeCompare fs path))
    \<and> listDirectory localeCompare fs path
        = filter (\<lambda>n. ntype n = Directory) (listDirectory localeCompare fs path)
          @ filter (\<lambda>n. ntype n = File) (listDirectory localeCompare fs path)
    \<and> sorted_wrt (\<lambda>a b. localeCompare (name a) (name b) \<le> 0)
        (filter (\<lambda>n. ntype n = Directory) (listDirectory localeCompare fs path))
    \<and> sorted_wrt (\<lambda>a b. localeCompare (name a) (name b) \<le> 0)
        (filter (\<lambda>n. ntype n = File) (listDirectory localeCompare fs path))
    \<and> sorted_wrt (\<lambda>a b. defaultCollation (name a) (name b) \<le> 0)
        (filter (\<lambda>n. ntype n = Directory) (listDirectory defaultCollation fs path))
    \<and> sorted_wrt (\<lambda>a b. defaultCollation (name a) (name b) \<le> 0)
        (filter (\<lambda>n. ntype n = File) (listDirectory defaultCollation fs path))
    \<and> (\<forall>nd cs. getNodeByPath fs (targetPath fs path) = Some nd \<and> ntype nd = Directory
          \<and> children nd = Some cs \<longrightarrow>
          set (listDirectory localeCompare fs path) = snd ` set cs
          \<and> length (listDirectory localeCompare fs path) = length cs)
    \<and> (map_option ntype (getNodeByPath fs (targetPath fs path)) \<noteq> Some Directory \<longrightarrow>
          listDirectory localeCompare fs path = [])"
proof -
  have srt: "sorted_wrt (\<lambda>a b. compareNodes lc a b \<le> 0) (listDirectory lc fs path)"
    if t: "\<And>a b. lc a b \<le> 0 \<or> lc b a \<le> 0"
      and tr: "\<And>a b c. lc a b \<le> 0 \<Longrightarrow> lc b c \<le> 0 \<Longrightarrow> lc a c \<le> 0"
    for lc
  proof -
    have "sorted_wrt (\<lambda>a b. compareNodes lc a b \<le> 0) (sortBy (compareNodes lc) xs)" for xs
      by (rule sorted_sortBy) (rule compareNodes_total[of lc, OF t], rule compareNodes_trans[of lc, OF tr])
    then show ?thesis by (simp add: listDirectory_def split: option.splits)
  qed
  have s1: "sorted_wrt (\<lambda>a b. compareNodes localeCompare a b \<le> 0)
              (listDirectory localeCompare fs path)"
    using total trans by (intro srt) blast+
  have s2: "sorted_wrt (\<lambda>a b. compareNodes defaultCollation a b \<le> 0)
              (listDirectory defaultCollation fs path)"
    using defaultCollation_total defaultCollation_trans by (intro srt) blast+
  have dist: "distinct (map name (listDirectory localeCompare fs path))"
  proof (cases "getNodeByPath fs (targetPath fs path)")
    case None
    then show ?thesis by (simp add: listDirectory_def)
  next
    case (Some nd)
    then have wfn: "wf_node nd" using wf by (simp add: getNodeByPath_walk wf_node_walk)
    have "distinct (map name (map snd cs))" if "children nd = Some cs" for cs
      by (simp only: wf_node_names[OF wfn that])
    then show ?thesis using Some
      by (simp add: listDirectory_def distinct_map_sortBy split: option.splits)
  qed
  have perm: "set (listDirectory localeCompare fs path) = snd ` set cs
      \<and> length (listDirectory localeCompare fs path) = length cs"
    if "getNodeByPath fs (targetPath fs path) = Some nd \<and> ntype nd = Directory
          \<and> children nd = Some cs" for nd cs
    using that by (simp add: listDirectory_def set_sortBy length_sortBy)
  have emp: "listDirectory localeCompare fs path = []"
    if "map_option ntype (getNodeByPath fs (targetPath fs path)) \<noteq> Some Directory"
    using that by (auto simp: listDirectory_def split: option.splits)
  show ?thesis
    using dist directories_first[OF s1] group_sorted[OF s1] group_sorted[OF s2] perm emp
    by (intro conjI allI impI) blast+
qed

theorem listDirectory_sorted_witness:
  "map name (listDirectory defaultCollation fs_listing None)
     = [''beta'', ''Documents'', ''Downloads'', ''Pictures'', ''Videos'',
        ''alpha'', ''readme.txt'', ''script.sh'', ''Zeta'']
   \<and> map ntype (listDirectory defaultCollation fs_listing None)
     = [Directory, Directory, Directory, Directory, Directory, File, File, File, File]
   \<and> distinct (map name (listDirectory defaultCollation fs_listing None))
   \<and> listDirectory defaultCollation fs_listing (Some ''readme.txt'') = []
   \<and> listDirectory defaultCollation fs_listing (Some ''missing'') = []"
proof -
  note T = listDirectory_sorted[OF fs_listing_wf defaultCollation_total defaultCollation_trans]
  have 1: "distinct (map name (listDirectory defaultCollation fs_listing None))"
    by (rule T[THEN conjunct1])
  have a: "map_option ntype (getNodeByPath fs_listing (targetPath fs_listing (Some ''readme.txt'')))
           = Some File"
    by (simp add: fs_listing_def fs0_def vfs_eval createFile_def createDirectory_def
        targetPath_def)
  have b: "getNodeByPath fs_listing (targetPath fs_listing (Some ''missing'')) = None"
    by (simp add: fs_listing_def fs0_def vfs_eval createFile_def createDirectory_def
        targetPath_def)
  have 4: "listDirectory defaultCollation fs_listing (Some ''readme.txt'') = []"
    by (rule T[THEN conjunct2, THEN conjunct2, THEN conjunct2, THEN conjunct2, THEN conjunct2,
               THEN conjunct2, THEN conjunct2, rule_format]) (simp add: a)
  have 5: "listDirectory defaultCollation fs_listing (Some ''missing'') = []"
    by (rule T[THEN conjunct2, THEN conjunct2, THEN conjunct2, THEN conjunct2, THEN conjunct2,
               THEN conjunct2, THEN conjunct2, rule_format]) (simp add: b)
  from fs_listing_names fs_listing_types 1 4 5 show ?thesis by simp
qed

text \<open>The trees that the operations produce from the seeded tree are well formed.\<close>

lemma name_setChild [simp]: "name (setChild k c n) = name n" by (cases n) simp
lemma name_deleteChild [simp]: "name (deleteChild k n) = name n" by (cases n) simp
lemma name_setModified [simp]: "name (setModified t n) = name n" by (cases n) simp
lemma name_setContent [simp]: "name (setContent c n) = name n" by (cases n) simp

lemma set_alist_update: "set (AList.update k v cs) \<subseteq> insert (k, v) (set cs)"
  by (induction cs) auto

lemma wf_node_setChild:
  assumes "wf_node n" and "wf_node c" and "name c = k"
  shows "wf_node (setChild k c n)"
proof (cases "children n")
  case None
  then show ?thesis using assms(1) by (subst wf_node_iff) simp
next
  case (Some cs)
  with assms(1) have d: "distinct (map fst cs)"
    and a: "\<forall>(k, c) \<in> set cs. k = name c \<and> wf_node c"
    by (subst (asm) wf_node_iff, simp)+
  have "distinct (map fst (AList.update k c cs))" using d by (rule distinct_update)
  moreover have "\<forall>(k', c') \<in> set (AList.update k c cs). k' = name c' \<and> wf_node c'"
    using a assms(2,3) set_alist_update[of k c cs] by auto
  ultimately show ?thesis using Some by (subst wf_node_iff) simp
qed

lemma wf_node_deleteChild:
  assumes "wf_node n"
  shows "wf_node (deleteChild k n)"
proof (cases "children n")
  case None
  then show ?thesis by (subst wf_node_iff) simp
next
  case (Some cs)
  with assms have d: "distinct (map fst cs)"
    and a: "\<forall>(k, c) \<in> set cs. k = name c \<and> wf_node c"
    by (subst (asm) wf_node_iff, simp)+
  have "distinct (map fst (AList.delete k cs))" using d by (rule distinct_delete)
  moreover have "\<forall>(k', c') \<in> set (AList.delete k cs). k' = name c' \<and> wf_node c'"
    using a by (auto simp: AList.delete_eq)
  ultimately show ?thesis using Some by (subst wf_node_iff) simp
qed

lemma wf_node_setModified: "wf_node n \<Longrightarrow> wf_node (setModified t n)"
  by (subst wf_node_iff, subst (asm) wf_node_iff) simp

lemma wf_node_setContent: "wf_node n \<Longrightarrow> wf_node (setContent c n)"
  by (subst wf_node_iff, subst (asm) wf_node_iff) simp

lemma wf_node_modify:
  assumes f: "\<And>n. wf_node n \<Longrightarrow> wf_node (f n) \<and> name (f n) = name n"
  shows "wf_node r \<Longrightarrow> wf_node (modify ps f r) \<and> name (modify ps f r) = name r"
proof (induction ps arbitrary: r)
  case Nil
  then show ?case using f by simp
next
  case (Cons p ps)
  show ?case
  proof (cases "children r")
    case None
    then show ?thesis using Cons.prems by simp
  next
    case (Some cs)
    show ?thesis
    proof (cases "map_of cs p")
      case None
      then show ?thesis using Some Cons.prems by simp
    next
      case c: (Some c)
      then have "(p, c) \<in> set cs" by (rule map_of_SomeD)
      with Cons.prems Some have wc: "wf_node c" and nc: "name c = p"
        by (subst (asm) wf_node_iff, auto)+
      from Cons.IH[OF wc] nc have "wf_node (modify ps f c)" and "name (modify ps f c) = p"
        by simp_all
      then have "wf_node (setChild p (modify ps f c) r)"
        using Cons.prems by (intro wf_node_setChild)
      then show ?thesis using Some c by simp
    qed
  qed
qed

lemma wf_node_createNode: "wf_node (createNode now nm ty cont)"
  by (simp add: createNode_def)

lemma name_createNode: "name (createNode now nm ty cont) = nm"
  by (simp add: createNode_def)

lemma wf_node_apply_op: "wf_node (root fs) \<Longrightarrow> wf_node (root (apply_op fs op))"
proof (cases op)
  case (SetCurrentDirectory path)
  assume "wf_node (root fs)"
  then show ?thesis using SetCurrentDirectory
    by (auto simp: setCurrentDirectory_def Let_def split: option.splits)
next
  case (CreateFile now nm cont)
  assume wf: "wf_node (root fs)"
  have "wf_node (modify ps (\<lambda>n. setModified now (setChild nm (createNode now nm File (Some cont)) n)) (root fs))" for ps
    using wf by (intro wf_node_modify[THEN conjunct1])
      (simp_all add: wf_node_setModified wf_node_setChild wf_node_createNode name_createNode)
  then show ?thesis using CreateFile wf
    by (auto simp: createFile_def Let_def split: option.splits)
next
  case (CreateDirectory now nm)
  assume wf: "wf_node (root fs)"
  have "wf_node (modify ps (\<lambda>n. setModified now (setChild nm (createNode now nm Directory None) n)) (root fs))" for ps
    using wf by (intro wf_node_modify[THEN conjunct1])
      (simp_all add: wf_node_setModified wf_node_setChild wf_node_createNode name_createNode)
  then show ?thesis using CreateDirectory wf
    by (auto simp: createDirectory_def Let_def split: option.splits)
next
  case (DeleteNode now nm recursive)
  assume wf: "wf_node (root fs)"
  have "wf_node (modify ps (\<lambda>n. setModified now (deleteChild nm n)) (root fs))" for ps
    using wf by (intro wf_node_modify[THEN conjunct1])
      (simp_all add: wf_node_setModified wf_node_deleteChild)
  then show ?thesis using DeleteNode wf
    by (auto simp: deleteNode_def Let_def split: option.splits)
next
  case (WriteFile now nm cont)
  assume wf: "wf_node (root fs)"
  have 1: "wf_node (modify ps (\<lambda>n. setModified now (setChild nm (createNode now nm File (Some cont)) n)) (root fs))" for ps
    using wf by (intro wf_node_modify[THEN conjunct1])
      (simp_all add: wf_node_setModified wf_node_setChild wf_node_createNode name_createNode)
  have 2: "wf_node (modify ps (\<lambda>n. setModified now (setContent cont n)) (root fs))" for ps
    using wf by (intro wf_node_modify[THEN conjunct1])
      (simp_all add: wf_node_setModified wf_node_setContent)
  show ?thesis using WriteFile wf 1 2
    by (auto simp: writeFile_def createFile_def Let_def split: option.splits)
qed

lemma wf_node_run: "wf_node (root fs) \<Longrightarrow> wf_node (root (foldl apply_op fs ops))"
  by (induction ops arbitrary: fs) (simp_all add: wf_node_apply_op)

lemma wf_node_reachable:
  "wf_node (root (foldl apply_op (newVirtualFileSystem now home) ops))"
  by (rule wf_node_run) (simp add: vfs_eval)


section \<open>Properties of the script interpreter\<close>

lemmas script_eval = executeScript_def readFile_def executeScriptLine_def executeEcho_def
  parseCommand_def parseCommand_step_def addOutput_def trim_def isSpace_def isWord_def

lemma executeScript_seeded_script:
  "executeScript defaultCollation ''script.sh'' w_seeded
     = (True, w_seeded\<lparr>terminal := [(''Hello World!'', ''output-line'')]\<rparr>)"
  by (simp add: w_seeded_def fs0_def vfs_eval script_eval)

lemma w_empty_script_node:
  "map_option ntype (getNode (fileSystem w_empty_script) ''empty.sh'') = Some File
   \<and> map_option content (getNode (fileSystem w_empty_script) ''empty.sh'') = Some (Some [])"
  by (simp add: w_empty_script_def fs0_def vfs_eval createFile_def)

text \<open>
  C10. For every script path that resolves to an existing file whose content is the
  empty string, \<^verbatim>\<open>readFile\<close> returns the empty string (not null), and \<^verbatim>\<open>executeScript\<close>
  returns false after reporting \<^verbatim>\<open>No such file or directory\<close>.
\<close>

theorem executeScript_empty_file:
  assumes "getNode (fileSystem w) scriptPath = Some nd" and "ntype nd = File"
    and "content nd = Some []"
  shows "readFile (fileSystem w) scriptPath = Some []
     \<and> executeScript localeCompare scriptPath w
         = (False, addOutput (''bash: '' @ scriptPath @ '': No such file or directory'')
                     ''error-line'' w)"
  using assms by (simp add: readFile_def executeScript_def)

theorem executeScript_empty_file_witness:
  "readFile (fileSystem w_empty_script) ''empty.sh'' = Some []
   \<and> executeScript defaultCollation ''empty.sh'' w_empty_script
       = (False, addOutput ''bash: empty.sh: No such file or directory'' ''error-line''
                   w_empty_script)"
proof -
  from w_empty_script_node obtain nd where
    "getNode (fileSystem w_empty_script) ''empty.sh'' = Some nd" "ntype nd = File"
    "content nd = Some []"
    by auto
  from executeScript_empty_file[OF this, of defaultCollation] show ?thesis by simp
qed


section \<open>Properties of the command registry\<close>

lemmas reg_eval = getCommand_def actualName_def registerCommand_def newCommandProcessor_def
  noopCommand_def toLowerCase_def lowerChar_def aliasList_def

lemma toLowerCase_Nil: "toLowerCase s = [] \<longleftrightarrow> s = []"
  by (simp add: toLowerCase_def)

lemma fold_alias:
  "foldl (\<lambda>m a. m(toLowerCase a \<mapsto> t)) m0 al k
     = (if k \<in> toLowerCase ` set al then Some t else m0 k)"
  by (induction al arbitrary: m0) auto

lemma aliases_registerCommand:
  "aliases (registerCommand p c) k
     = (if k \<in> toLowerCase ` set (aliasList c) then Some (toLowerCase (cmd_name c))
        else aliases p k)"
  by (simp add: registerCommand_def aliasList_def fold_alias split: option.splits)

lemma commands_registerCommand:
  "commands (registerCommand p c) k
     = (if k = toLowerCase (cmd_name c) then Some c else commands p k)"
  by (simp add: registerCommand_def)

lemma commands_run:
  "commands (foldl registerCommand p cs) k
     = (case lastNamed cs k of Some d \<Rightarrow> Some d | None \<Rightarrow> commands p k)"
  by (induction cs rule: rev_induct) (simp_all add: lastNamed_def commands_registerCommand)

lemma aliases_run:
  "aliases (foldl registerCommand p cs) k
     = (case lastAliased cs k of
          Some d \<Rightarrow> Some (toLowerCase (cmd_name d))
        | None \<Rightarrow> aliases p k)"
  by (induction cs rule: rev_induct) (simp_all add: lastAliased_def aliases_registerCommand)

lemmas last_eval = lastNamed_def lastAliased_def noopCommand_def aliasList_def EchoCommand_def
  toLowerCase_def lowerChar_def

text \<open>
  C4, as the specification states it: after any sequence of registrations, a name that
  collides resolves to the command registered last. It does not: after \<^verbatim>\<open>ls\<close> with the
  alias \<^verbatim>\<open>dir\<close>, a command registered later under the name \<^verbatim>\<open>dir\<close> is not what
  \<^verbatim>\<open>getCommand("dir")\<close> returns; the alias entry still leads to \<^verbatim>\<open>ls\<close>.
\<close>

theorem registerCommand_alias_shadows_name:
  "getCommand (registerCommand (registerCommand newCommandProcessor
       (noopCommand ''ls'' (Some [''dir''])))
       (noopCommand ''dir'' None)) ''dir''
     = Some (noopCommand ''ls'' (Some [''dir'']))
   \<and> getCommand (registerCommand (registerCommand newCommandProcessor
       (noopCommand ''ls'' (Some [''dir''])))
       (noopCommand ''dir'' None)) ''dir''
     \<noteq> Some (noopCommand ''dir'' None)"
  by (simp add: reg_eval)

text \<open>
  C4, amended. The registry is two tables, primary names to commands and aliases to
  primary names (all keys lowercased). After any sequence of registrations each table
  holds, for every key, what the last registration that wrote the key put there (and
  what it held before where none did), and \<^verbatim>\<open>getCommand\<close> looks the name up in the alias
  table first and in the command table under what it found, or under the name itself.
  Hence a name that is no alias resolves to the command registered last under it,
  whatever was registered afterwards; an alias resolves to the command registered last
  with it, as long as that command is the last under its own non-empty name; and right
  after registering a command with a non-empty name, each of its aliases resolves to
  it, also when the alias is another command's primary name.
\<close>

theorem registerCommand_last_wins:
  "commands (foldl registerCommand p cs) k
     = (case lastNamed cs k of Some d \<Rightarrow> Some d | None \<Rightarrow> commands p k)
   \<and> aliases (foldl registerCommand p cs) k
     = (case lastAliased cs k of
          Some d \<Rightarrow> Some (toLowerCase (cmd_name d))
        | None \<Rightarrow> aliases p k)
   \<and> getCommand (foldl registerCommand p cs) n
     = commands (foldl registerCommand p cs)
         (case aliases (foldl registerCommand p cs) (toLowerCase n) of
            None \<Rightarrow> toLowerCase n
          | Some t \<Rightarrow> if t \<noteq> [] then t else toLowerCase n)
   \<and> (aliases (foldl registerCommand p cs) (toLowerCase n) = None
        \<and> lastNamed cs (toLowerCase n) = Some c
      \<longrightarrow> getCommand (foldl registerCommand p cs) n = Some c)
   \<and> (lastAliased cs (toLowerCase n) = Some c \<and> cmd_name c \<noteq> []
        \<and> lastNamed cs (toLowerCase (cmd_name c)) = Some c
      \<longrightarrow> getCommand (foldl registerCommand p cs) n = Some c)
   \<and> (a \<in> set (aliasList c) \<and> cmd_name c \<noteq> []
      \<longrightarrow> getCommand (registerCommand p c) a = Some c)"
proof -
  let ?R = "foldl registerCommand p cs"
  have 3: "getCommand ?R n
     = commands ?R (case aliases ?R (toLowerCase n) of
            None \<Rightarrow> toLowerCase n
          | Some t \<Rightarrow> if t \<noteq> [] then t else toLowerCase n)"
    by (simp add: getCommand_def actualName_def)
  have 4: "getCommand ?R n = Some c"
    if "aliases ?R (toLowerCase n) = None \<and> lastNamed cs (toLowerCase n) = Some c"
    using that by (simp add: getCommand_def actualName_def commands_run)
  have 5: "getCommand ?R n = Some c"
    if h: "lastAliased cs (toLowerCase n) = Some c \<and> cmd_name c \<noteq> []
        \<and> lastNamed cs (toLowerCase (cmd_name c)) = Some c"
  proof -
    from h have "aliases ?R (toLowerCase n) = Some (toLowerCase (cmd_name c))"
      by (simp add: aliases_run)
    moreover from h have "toLowerCase (cmd_name c) \<noteq> []" by (simp add: toLowerCase_Nil)
    moreover from h have "commands ?R (toLowerCase (cmd_name c)) = Some c"
      by (simp add: commands_run)
    ultimately show ?thesis by (simp add: getCommand_def actualName_def)
  qed
  have 6: "getCommand (registerCommand p c) a = Some c"
    if h: "a \<in> set (aliasList c) \<and> cmd_name c \<noteq> []"
  proof -
    from h have "aliases (registerCommand p c) (toLowerCase a) = Some (toLowerCase (cmd_name c))"
      by (simp add: aliases_registerCommand)
    moreover from h have "toLowerCase (cmd_name c) \<noteq> []" by (simp add: toLowerCase_Nil)
    moreover have "commands (registerCommand p c) (toLowerCase (cmd_name c)) = Some c"
      by (simp add: commands_registerCommand)
    ultimately show ?thesis by (simp add: getCommand_def actualName_def)
  qed
  from commands_run[of p cs k] aliases_run[of p cs k] 3 4 5 6 show ?thesis
    by (intro conjI impI) assumption+
qed

theorem registerCommand_last_wins_witness:
  "getCommand exampleRegistry ''ECHO'' = Some EchoCommand
   \<and> getCommand exampleRegistry ''ls'' = Some (noopCommand ''ls'' (Some [''dir'']))
   \<and> getCommand exampleRegistry ''dir'' = Some (noopCommand ''ls'' (Some [''dir'']))
   \<and> getCommand (registerCommand (registerCommand newCommandProcessor (noopCommand ''dir'' None))
        (noopCommand ''ls'' (Some [''dir'']))) ''dir''
      = Some (noopCommand ''ls'' (Some [''dir'']))"
proof -
  let ?cs = "[noopCommand ''dir'' None, noopCommand ''ls'' (Some [''dir'']), EchoCommand,
      noopCommand ''help'' (Some [''?''])]"
  let ?ls = "noopCommand ''ls'' (Some [''dir''])"
  note T = registerCommand_last_wins[of newCommandProcessor ?cs]
  have al: "aliases (foldl registerCommand newCommandProcessor ?cs) k
     = (case lastAliased ?cs k of
          Some d \<Rightarrow> Some (toLowerCase (cmd_name d))
        | None \<Rightarrow> aliases newCommandProcessor k)" for k
    by (rule T[THEN conjunct2, THEN conjunct1])
  have 1: "getCommand exampleRegistry ''ECHO'' = Some EchoCommand"
    unfolding exampleRegistry_def
    by (rule T[THEN conjunct2, THEN conjunct2, THEN conjunct2, THEN conjunct1, THEN mp])
       (subst al, simp add: last_eval newCommandProcessor_def)
  have 2: "getCommand exampleRegistry ''ls'' = Some ?ls"
    unfolding exampleRegistry_def
    by (rule T[THEN conjunct2, THEN conjunct2, THEN conjunct2, THEN conjunct1, THEN mp])
       (subst al, simp add: last_eval newCommandProcessor_def)
  have 3: "getCommand exampleRegistry ''dir'' = Some ?ls"
    unfolding exampleRegistry_def
    by (rule T[THEN conjunct2, THEN conjunct2, THEN conjunct2, THEN conjunct2, THEN conjunct1,
               THEN mp])
       (simp add: last_eval)
  have 4: "getCommand (registerCommand (registerCommand newCommandProcessor
             (noopCommand ''dir'' None)) ?ls) ''dir'' = Some ?ls"
    by (rule registerCommand_last_wins[THEN conjunct2, THEN conjunct2, THEN conjunct2,
               THEN conjunct2, THEN conjunct2, THEN mp])
       (simp add: noopCommand_def aliasList_def)
  from 1 2 3 4 show ?thesis by simp
qed

section \<open>Properties of the dispatcher\<close>

lemma nodeParts_root_update [simp]: "nodeParts (fs\<lparr>root := r\<rparr>) x = nodeParts fs x"
  by (simp add: nodeParts_def resolvePath_def getAbsolutePath_def)

lemma getNode_walk: "getNode fs x = walk (root fs) (nodeParts fs x)"
  by (auto simp: getNode_def nodeParts_def getNodeByPath_walk getCurrentDirectoryNode_walk
      walk_append split: option.splits)

lemma writeFile_existing:
  assumes "getNode fs x = Some nd" and "ntype nd = File"
  shows "fst (writeFile fs now x c) \<and> readFile (snd (writeFile fs now x c)) x = Some c"
proof -
  let ?f = "\<lambda>n. setModified now (setContent c n)"
  let ?fs' = "fs\<lparr>root := modify (nodeParts fs x) ?f (root fs)\<rparr>"
  have w: "writeFile fs now x c = (True, ?fs')"
    using assms by (simp add: writeFile_def)
  have "walk (root fs) (nodeParts fs x) = Some nd"
    using assms(1) by (simp add: getNode_walk)
  then have "walk (root ?fs') (nodeParts ?fs' x) = Some (?f nd)"
    by (simp add: walk_modify_same)
  then have "getNode ?fs' x = Some (?f nd)" by (simp only: getNode_walk)
  then have "readFile ?fs' x = Some c" using assms(2) by (simp add: readFile_def)
  then show ?thesis using w by simp
qed

lemma writeFile_bare:
  assumes bare: "\<not> includes_str x ''/''"
    and cn: "getCurrentDirectoryNode fs = Some cn" and cs: "children cn = Some cs"
    and nd: "map_option ntype (map_of cs x) \<noteq> Some Directory"
  shows "fst (writeFile fs now x c) \<and> readFile (snd (writeFile fs now x c)) x = Some c"
proof (cases "map_of cs x")
  case None
  then have g: "getNode fs x = None"
    using bare cn cs by (simp add: getNode_def)
  then have w: "writeFile fs now x c = createFile fs now x c"
    by (simp add: writeFile_def)
  have ok: "fst (createFile fs now x c)"
    using g cn cs by (simp add: createFile_def exists_def Let_def)
  then have "createFile fs now x c = (True, snd (createFile fs now x c))"
    by (simp add: prod_eq_iff)
  from createFile_success[OF bare this] show ?thesis using w ok by simp
next
  case (Some n)
  then have g: "getNode fs x = Some n"
    using bare cn cs by (simp add: getNode_def)
  have "ntype n = File" using nd Some by (cases "ntype n") simp_all
  with g show ?thesis by (rule writeFile_existing)
qed

lemma tokenize_echo_redirect:
  "tokenize ''echo hi > out.txt'' = [''echo'', ''hi'', ''>'', ''out.txt'']"
  by (simp add: tok_eval)

lemma parseInput_echo_redirect:
  "parseInput ''echo hi > out.txt'' =
     \<lparr>args = [''hi''], flags = Map.empty,
      redirectToFile = Some ''out.txt'', redirectMode = Some Write, command = ''echo''\<rparr>"
  by (simp add: tokenize_echo_redirect parse_eval)

text \<open>
  C3. The line \<^verbatim>\<open>echo hi > out.txt\<close> parses to the arguments \<^verbatim>\<open>hi\<close>, no flags, the
  redirect target \<^verbatim>\<open>out.txt\<close> and the mode write. Dispatching it where \<^verbatim>\<open>echo\<close> resolves to
  the echo command, in a file system whose current directory exists and has no
  directory named \<^verbatim>\<open>out.txt\<close>, returns a successful result without output lines, and
  afterwards \<^verbatim>\<open>readFile("out.txt")\<close> is \<^verbatim>\<open>hi\<close>.
\<close>

theorem echo_redirect:
  assumes reg: "getCommand p ''echo'' = Some EchoCommand"
    and cn: "getCurrentDirectoryNode (fileSystem w) = Some cn" and cs: "children cn = Some cs"
    and nd: "map_option ntype (map_of cs ''out.txt'') \<noteq> Some Directory"
  shows "parseInput ''echo hi > out.txt'' =
           \<lparr>args = [''hi''], flags = Map.empty,
            redirectToFile = Some ''out.txt'', redirectMode = Some Write, command = ''echo''\<rparr>
     \<and> fst (executeCommand p now ''echo hi > out.txt'' w wd)
         = \<lparr>success = True, output_lines = None, error = None, exitCode = 0\<rparr>
     \<and> readFile (fileSystem (snd (executeCommand p now ''echo hi > out.txt'' w wd))) ''out.txt''
         = Some ''hi''"
proof -
  have bare: "\<not> includes_str ''out.txt'' ''/''" by (simp add: startsWith_def)
  from writeFile_bare[OF bare cn cs nd, of now "''hi''"]
  have wf: "fst (writeFile (fileSystem w) now ''out.txt'' ''hi'')"
    and rd: "readFile (snd (writeFile (fileSystem w) now ''out.txt'' ''hi'')) ''out.txt'' = Some ''hi''"
    by simp_all
  have tr: "trim ''echo hi > out.txt'' \<noteq> []" by (simp add: trim_def isSpace_def)
  have cmd: "commands p (actualName p ''echo'') = Some EchoCommand"
    using reg by (simp add: getCommand_def)
  have ex: "executeCommand p now ''echo hi > out.txt'' w wd
      = (\<lparr>success = True, output_lines = None, error = None, exitCode = 0\<rparr>,
         w\<lparr>fileSystem := snd (writeFile (fileSystem w) now ''out.txt'' ''hi'')\<rparr>)"
    using wf
    by (simp add: executeCommand_def tr parseInput_echo_redirect cmd EchoCommand_def
        successResult_def writeToFile_def world.truncate_def split_beta)
  show ?thesis using ex rd parseInput_echo_redirect by simp
qed

theorem echo_redirect_witness:
  "fst (executeCommand (registerCommand newCommandProcessor EchoCommand) 9
          ''echo hi > out.txt'' w_seeded ''~'')
     = \<lparr>success = True, output_lines = None, error = None, exitCode = 0\<rparr>
   \<and> readFile (fileSystem (snd (executeCommand (registerCommand newCommandProcessor EchoCommand) 9
          ''echo hi > out.txt'' w_seeded ''~''))) ''out.txt''
     = Some ''hi''"
proof -
  have reg: "getCommand (registerCommand newCommandProcessor EchoCommand) ''echo''
             = Some EchoCommand"
    by (simp add: getCommand_def actualName_def registerCommand_def newCommandProcessor_def
        EchoCommand_def toLowerCase_def lowerChar_def)
  obtain cn cs where cn: "getCurrentDirectoryNode (fileSystem w_seeded) = Some cn"
    and cs: "children cn = Some cs" and nd: "map_of cs ''out.txt'' = None"
    by (simp add: w_seeded_def fs0_def vfs_eval)
  from nd have "map_option ntype (map_of cs ''out.txt'') \<noteq> Some Directory" by simp
  from echo_redirect[OF reg cn cs this, of 9 "''~''"] show ?thesis by simp
qed

end
